theory Spec2Isabelle
  imports Main "HOL-Library.AList"
begin

section \<open>Data model\<close>

text \<open>
  The three fetched record sets of \<^verbatim>\<open>active_instances\<close> are sequences of Python
  dictionaries; the function walks the hypervisors twice, so they are lists. Each
  dictionary is modelled as a record with the fields the function reads or writes, and
  every fetched dictionary has these keys. A field that may hold Python's
  \<^verbatim>\<open>None\<close> is an option. Identifiers, host names and zones are strings; the function
  only tests them for equality, emptiness and splits host names at dots. The time stamp
  \<^verbatim>\<open>last_seen\<close> is only compared by \<^verbatim>\<open><\<close> and is an integer.
  The field \<^verbatim>\<open>project_display_name\<close> does not exist on a fetched instance; the
  function creates it, so \<open>None\<close> there stands for "key absent". All other keys of an
  instance dictionary are passed through untouched: they live in the extension slot of
  the record scheme.
\<close>

record hypervisor =
  h_id :: string
  h_hostname :: string
  h_availability_zone :: "string option"
  h_last_seen :: int

record inst =
  i_id :: string
  i_hypervisor :: "string option"
  i_project_id :: string
  i_availability_zone :: "string option"
  i_project_display_name :: "string option"

record project =
  p_id :: string
  p_display_name :: string

text \<open>Calls on the logger, in the order they are made.\<close>

datatype level = DEBUG | WARNING | ERROR

datatype message =
    No_availability_zone string
  | Checked_hypervisor_AZ
  | Duplicate_short_names string string string
  | Instance_no_hypervisor string
  | No_hypervisor_for_instance string
  | Invalid_project_id string string
  | Checked_instance_hypervisor

type_synonym log = "(level \<times> message) list"

text \<open>
  \<^verbatim>\<open>sys.exit(1)\<close> raises \<^verbatim>\<open>SystemExit\<close>; a failed dictionary lookup raises
  \<^verbatim>\<open>KeyError\<close>.
\<close>

datatype error = SystemExit int | KeyError

section \<open>Python primitives\<close>

text \<open>\<^verbatim>\<open>not v\<close> for a value that is \<^verbatim>\<open>None\<close> or a string.\<close>

definition falsy :: "string option \<Rightarrow> bool" where
  "falsy v = (v = None \<or> v = Some [])"

text \<open>\<^verbatim>\<open>s.split('.')[0]\<close>: the text before the first dot, all of \<open>s\<close> without one.\<close>

definition short_name :: "string \<Rightarrow> string" where
  "short_name s = takeWhile (\<lambda>c. c \<noteq> CHR ''.'') s"

section \<open>The loops of active\_instances\<close>

text \<open>
  Lines 39--42: every hypervisor needs an availability zone. The loop stops at the
  first one without, logs an error with its id and exits.
\<close>

fun check_hypervisors :: "hypervisor list \<Rightarrow> log \<times> (error + unit)" where
  "check_hypervisors [] = ([], Inr ())"
| "check_hypervisors (h # hs) =
     (if falsy (h_availability_zone h)
      then ([(ERROR, No_availability_zone (h_id h))], Inl (SystemExit 1))
      else check_hypervisors hs)"

text \<open>
  Lines 48--59: the dictionary \<^verbatim>\<open>hyp_short\<close>, from short name to hypervisor. Only lookups
  are made on it, so it is a map. A short name seen before logs a warning with both ids;
  the stored hypervisor stays only when the new one was seen strictly earlier.
\<close>

fun build_hyp_short ::
  "hypervisor list \<Rightarrow> (string \<rightharpoonup> hypervisor) \<Rightarrow> (string \<rightharpoonup> hypervisor) \<times> log" where
  "build_hyp_short [] hyp_short = (hyp_short, [])"
| "build_hyp_short (h # hs) hyp_short =
     (let sn = short_name (h_hostname h) in
      case hyp_short sn of
        None \<Rightarrow> build_hyp_short hs (hyp_short(sn \<mapsto> h))
      | Some old \<Rightarrow>
          (let w = (WARNING, Duplicate_short_names sn (h_id old) (h_id h));
               (m, lg) = (if h_last_seen h < h_last_seen old
                          then build_hyp_short hs hyp_short
                          else build_hyp_short hs (hyp_short(sn \<mapsto> h)))
           in (m, w # lg)))"

text \<open>Line 62: the dictionary comprehension; a later project with the same id wins.\<close>

fun build_project_by_id :: "project list \<Rightarrow> (string \<rightharpoonup> project) \<Rightarrow> (string \<rightharpoonup> project)" where
  "build_project_by_id [] m = m"
| "build_project_by_id (p # ps) m = build_project_by_id ps (m(p_id p \<mapsto> p))"

text \<open>
  Lines 63--78. The fetched instances are objects that the function later changes in
  place, so an instance is referred to by its address: its position in the fetched
  sequence. \<^verbatim>\<open>instance_hypervisor\<close> and \<^verbatim>\<open>instance_by_id\<close> are dictionaries whose
  order of keys is the order of the result, so they are association lists; assigning to
  a key that exists keeps its place, assigning to a new key appends, which is
  \<^const>\<open>AList.update\<close>. This is the order of a dictionary since Python 3.7; an older
  interpreter walks the same keys in an order of its own; apart from the order in which
  the addresses are yielded, nothing below depends on it.
\<close>

type_synonym instance_hypervisor = "(string \<times> hypervisor) list"
type_synonym instance_by_id = "(string \<times> nat) list"

fun join_instances ::
  "(string \<rightharpoonup> hypervisor) \<Rightarrow> (string \<rightharpoonup> project) \<Rightarrow> (nat \<times> 'z inst_scheme) list \<Rightarrow>
   instance_hypervisor \<Rightarrow> instance_by_id \<Rightarrow>
   log \<times> (error + instance_hypervisor \<times> instance_by_id)" where
  "join_instances hyp_short project_by_id [] ih ib = ([], Inr (ih, ib))"
| "join_instances hyp_short project_by_id ((a, i) # rest) ih ib =
     (case i_hypervisor i of
        None \<Rightarrow>
          (let (lg, r) = join_instances hyp_short project_by_id rest ih ib
           in ((WARNING, Instance_no_hypervisor (i_id i)) # lg, r))
      | Some ref \<Rightarrow>
          (case hyp_short (short_name ref) of
             None \<Rightarrow> ([(ERROR, No_hypervisor_for_instance (i_id i))], Inl (SystemExit 1))
           | Some h \<Rightarrow>
               (if project_by_id (i_project_id i) = None
                then (let (lg, r) = join_instances hyp_short project_by_id rest ih ib
                      in ((WARNING, Invalid_project_id (i_id i) (i_project_id i)) # lg, r))
                else join_instances hyp_short project_by_id rest
                       (AList.update (i_id i) h ih) (AList.update (i_id i) a ib))))"

text \<open>
  Lines 83--92: for every key of \<^verbatim>\<open>instance_hypervisor\<close>, the instance object stored
  under that key is changed in place. The heap is the fetched sequence itself.
\<close>

fun enrich ::
  "(string \<rightharpoonup> project) \<Rightarrow> instance_hypervisor \<Rightarrow> instance_by_id \<Rightarrow> string list \<Rightarrow>
   'z inst_scheme list \<Rightarrow> error + 'z inst_scheme list" where
  "enrich project_by_id ih ib [] heap = Inr heap"
| "enrich project_by_id ih ib (iid # rest) heap =
     (case map_of ib iid of
        None \<Rightarrow> Inl KeyError
      | Some a \<Rightarrow>
          (case map_of ih iid of
             None \<Rightarrow> Inl KeyError
           | Some h \<Rightarrow>
               (let i = (heap ! a)\<lparr>i_availability_zone := h_availability_zone h\<rparr> in
                case project_by_id (i_project_id i) of
                  None \<Rightarrow> Inl KeyError
                | Some p \<Rightarrow>
                    enrich project_by_id ih ib rest
                      (heap[a := i\<lparr>i_project_display_name := Some (p_display_name p)\<rparr>]))))"

text \<open>
  The whole function. A run that returns gives the addresses of the objects the generator
  yields (the values of \<^verbatim>\<open>instance_by_id\<close>) and the fetched sequence as the run left it.
\<close>

definition active_instances ::
  "hypervisor list \<Rightarrow> 'z inst_scheme list \<Rightarrow> project list \<Rightarrow>
   log \<times> (error + nat list \<times> 'z inst_scheme list)" where
  "active_instances hypervisor instances project =
     (case check_hypervisors hypervisor of
        (lg1, Inl e) \<Rightarrow> (lg1, Inl e)
      | (lg1, Inr _) \<Rightarrow>
          (let (hyp_short, lg2) = build_hyp_short hypervisor Map.empty;
               project_by_id = build_project_by_id project Map.empty
           in case join_instances hyp_short project_by_id (enumerate 0 instances) [] [] of
                (lg3, Inl e) \<Rightarrow> (lg1 @ [(DEBUG, Checked_hypervisor_AZ)] @ lg2 @ lg3, Inl e)
              | (lg3, Inr (ih, ib)) \<Rightarrow>
                  (let lg = lg1 @ [(DEBUG, Checked_hypervisor_AZ)] @ lg2 @ lg3
                            @ [(DEBUG, Checked_instance_hypervisor)]
                   in case enrich project_by_id ih ib (map fst ih) instances of
                        Inl e \<Rightarrow> (lg, Inl e)
                      | Inr heap \<Rightarrow> (lg, Inr (map snd ib, heap)))))"

text \<open>The records the generator yields: the objects at the returned addresses.\<close>

definition output_records :: "nat list \<times> 'z inst_scheme list \<Rightarrow> 'z inst_scheme list" where
  "output_records r = map (\<lambda>a. snd r ! a) (fst r)"

section \<open>Auxiliary notions\<close>

text \<open>One pass of the body of the loop of lines 49--59, on the dictionary alone.\<close>

definition keep_or_replace :: "(string \<rightharpoonup> hypervisor) \<Rightarrow> hypervisor \<Rightarrow> (string \<rightharpoonup> hypervisor)" where
  "keep_or_replace m h =
     (case m (short_name (h_hostname h)) of
        None \<Rightarrow> m(short_name (h_hostname h) \<mapsto> h)
      | Some old \<Rightarrow>
          if h_last_seen h < h_last_seen old then m else m(short_name (h_hostname h) \<mapsto> h))"

text \<open>The hypervisor an instance resolves to: lines 66--70.\<close>

definition hyp_of :: "(string \<rightharpoonup> hypervisor) \<Rightarrow> 'z inst_scheme \<Rightarrow> hypervisor option" where
  "hyp_of hyp_short i =
     (case i_hypervisor i of None \<Rightarrow> None | Some ref \<Rightarrow> hyp_short (short_name ref))"

text \<open>The instance names a hypervisor that the short-name dictionary does not know (line 70).\<close>

definition unresolved :: "(string \<rightharpoonup> hypervisor) \<Rightarrow> 'z inst_scheme \<Rightarrow> bool" where
  "unresolved hyp_short i = (i_hypervisor i \<noteq> None \<and> hyp_of hyp_short i = None)"

text \<open>The instance passes all three tests of the loop and is stored (lines 77--78).\<close>

definition retained ::
  "(string \<rightharpoonup> hypervisor) \<Rightarrow> (string \<rightharpoonup> project) \<Rightarrow> 'z inst_scheme \<Rightarrow> bool" where
  "retained hyp_short project_by_id i =
     (hyp_of hyp_short i \<noteq> None \<and> project_by_id (i_project_id i) \<noteq> None)"

text \<open>What the loop of lines 65--78 logs for one instance that does not stop the run.\<close>

definition warnings_of :: "(string \<rightharpoonup> project) \<Rightarrow> 'z inst_scheme \<Rightarrow> log" where
  "warnings_of project_by_id i =
     (if i_hypervisor i = None then [(WARNING, Instance_no_hypervisor (i_id i))]
      else if project_by_id (i_project_id i) = None
           then [(WARNING, Invalid_project_id (i_id i) (i_project_id i))]
      else [])"

text \<open>The two assignments of lines 89 and 92.\<close>

definition enriched :: "hypervisor \<Rightarrow> project \<Rightarrow> 'z inst_scheme \<Rightarrow> 'z inst_scheme" where
  "enriched h p i =
     i\<lparr>i_availability_zone := h_availability_zone h,
       i_project_display_name := Some (p_display_name p)\<rparr>"

text \<open>The two dictionaries as the function builds them, from empty ones.\<close>

definition hyp_short_of :: "hypervisor list \<Rightarrow> (string \<rightharpoonup> hypervisor)" where
  "hyp_short_of hypervisor = fst (build_hyp_short hypervisor Map.empty)"

definition project_by_id_of :: "project list \<Rightarrow> (string \<rightharpoonup> project)" where
  "project_by_id_of project = build_project_by_id project Map.empty"

text \<open>
  Address \<open>a\<close> holds an instance that is stored, and no later instance that is stored
  has the same id: the one that \<^verbatim>\<open>instance_by_id\<close> still holds at the end.
\<close>

definition last_retained ::
  "(string \<rightharpoonup> hypervisor) \<Rightarrow> (string \<rightharpoonup> project) \<Rightarrow> 'z inst_scheme list \<Rightarrow> nat \<Rightarrow> bool" where
  "last_retained hyp_short project_by_id instances a =
     (a < length instances \<and> retained hyp_short project_by_id (instances ! a) \<and>
      (\<forall>j\<in>set (drop (Suc a) instances).
         retained hyp_short project_by_id j \<longrightarrow> i_id j \<noteq> i_id (instances ! a)))"

text \<open>What a run that returns has logged.\<close>

definition run_log :: "hypervisor list \<Rightarrow> 'z inst_scheme list \<Rightarrow> project list \<Rightarrow> log" where
  "run_log hypervisor instances project =
     (DEBUG, Checked_hypervisor_AZ) # snd (build_hyp_short hypervisor Map.empty)
       @ concat (map (warnings_of (project_by_id_of project)) instances)
       @ [(DEBUG, Checked_instance_hypervisor)]"

text \<open>Two instance records agree on the three fields that the loop of lines 65--78 reads.\<close>

definition same_keys :: "'z inst_scheme \<Rightarrow> 'z inst_scheme \<Rightarrow> bool" where
  "same_keys i j =
     (i_id i = i_id j \<and> i_hypervisor i = i_hypervisor j \<and> i_project_id i = i_project_id j)"

section \<open>Example data\<close>

text \<open>The hypervisors of the scenarios, and one more that ties with the first.\<close>

definition ex_H1 :: hypervisor where
  "ex_H1 = \<lparr>h_id = ''H1'', h_hostname = ''a.example.com'',
            h_availability_zone = Some ''az1'', h_last_seen = 100\<rparr>"

definition ex_H2 :: hypervisor where
  "ex_H2 = \<lparr>h_id = ''H2'', h_hostname = ''a.example.com'',
            h_availability_zone = Some ''az2'', h_last_seen = 200\<rparr>"

definition ex_H3 :: hypervisor where
  "ex_H3 = \<lparr>h_id = ''H3'', h_hostname = ''b.example.com'',
            h_availability_zone = Some [], h_last_seen = 50\<rparr>"

definition ex_H4 :: hypervisor where
  "ex_H4 = \<lparr>h_id = ''H4'', h_hostname = ''a.other.org'',
            h_availability_zone = Some ''az4'', h_last_seen = 100\<rparr>"

text \<open>The instances of the scenarios, a second record with the id of the fourth, and the project.\<close>

definition ex_I1 :: inst where
  "ex_I1 = \<lparr>i_id = ''I1'', i_hypervisor = None, i_project_id = ''P1'',
            i_availability_zone = None, i_project_display_name = None\<rparr>"

definition ex_I2 :: inst where
  "ex_I2 = \<lparr>i_id = ''I2'', i_hypervisor = Some ''a.example.com'', i_project_id = ''UNKNOWN'',
            i_availability_zone = None, i_project_display_name = None\<rparr>"

definition ex_I3 :: inst where
  "ex_I3 = \<lparr>i_id = ''I3'', i_hypervisor = Some ''unknown.example.com'', i_project_id = ''P1'',
            i_availability_zone = None, i_project_display_name = None\<rparr>"

definition ex_I4 :: inst where
  "ex_I4 = \<lparr>i_id = ''I4'', i_hypervisor = Some ''a.example.com'', i_project_id = ''P1'',
            i_availability_zone = Some ''stale-az'', i_project_display_name = None\<rparr>"

definition ex_I5 :: inst where
  "ex_I5 = \<lparr>i_id = ''I4'', i_hypervisor = Some ''a'', i_project_id = ''P1'',
            i_availability_zone = None, i_project_display_name = None\<rparr>"

definition ex_I6 :: inst where
  "ex_I6 = \<lparr>i_id = ''I6'', i_hypervisor = Some ''unknown'', i_project_id = ''UNKNOWN'',
            i_availability_zone = None, i_project_display_name = None\<rparr>"

definition ex_P1 :: project where
  "ex_P1 = \<lparr>p_id = ''P1'', p_display_name = ''Team Alpha''\<rparr>"

section \<open>The short-name dictionary\<close>

lemma fst_build_hyp_short_Cons:
  "fst (build_hyp_short (h # hs) m) = fst (build_hyp_short hs (keep_or_replace m h))"
  by (simp add: keep_or_replace_def Let_def split: option.splits prod.splits)

lemma build_hyp_short_stays:
  "m s = Some h \<Longrightarrow>
   \<forall>y\<in>set ys. short_name (h_hostname y) = s \<longrightarrow> h_last_seen y < h_last_seen h \<Longrightarrow>
   fst (build_hyp_short ys m) s = Some h"
proof (induction ys arbitrary: m)
  case Nil
  then show ?case by simp
next
  case (Cons y ys)
  have "keep_or_replace m y s = Some h"
    using Cons.prems by (auto simp: keep_or_replace_def split: option.splits)
  moreover have "\<forall>z\<in>set ys. short_name (h_hostname z) = s \<longrightarrow> h_last_seen z < h_last_seen h"
    using Cons.prems by simp
  ultimately show ?case
    using Cons.IH fst_build_hyp_short_Cons by metis
qed

lemma build_hyp_short_latest:
  "m s = None \<or> (\<exists>old. m s = Some old \<and> h_last_seen old \<le> h_last_seen h) \<Longrightarrow>
   short_name (h_hostname h) = s \<Longrightarrow>
   \<forall>x\<in>set xs. short_name (h_hostname x) = s \<longrightarrow> h_last_seen x \<le> h_last_seen h \<Longrightarrow>
   \<forall>y\<in>set ys. short_name (h_hostname y) = s \<longrightarrow> h_last_seen y < h_last_seen h \<Longrightarrow>
   fst (build_hyp_short (xs @ h # ys) m) s = Some h"
proof (induction xs arbitrary: m)
  case Nil
  have "keep_or_replace m h s = Some h"
    using Nil.prems(1,2) by (auto simp: keep_or_replace_def split: option.splits)
  then show ?case
    using build_hyp_short_stays [OF _ Nil.prems(4)]
    by (simp add: fst_build_hyp_short_Cons del: build_hyp_short.simps)
next
  case (Cons x xs)
  have "keep_or_replace m x s = None \<or>
        (\<exists>old. keep_or_replace m x s = Some old \<and> h_last_seen old \<le> h_last_seen h)"
    using Cons.prems(1,3) by (auto simp: keep_or_replace_def split: option.splits)
  then have "fst (build_hyp_short (xs @ h # ys) (keep_or_replace m x)) s = Some h"
    using Cons.IH Cons.prems by simp
  then show ?case
    by (simp add: fst_build_hyp_short_Cons del: build_hyp_short.simps)
qed

section \<open>The loop over the instances\<close>

lemma join_instances_returns:
  "\<forall>x\<in>set xs. \<not> unresolved hs (snd x) \<Longrightarrow>
   \<exists>ih' ib'. join_instances hs pb xs ih ib =
     (concat (map (\<lambda>x. warnings_of pb (snd x)) xs), Inr (ih', ib'))"
proof (induction xs arbitrary: ih ib)
  case Nil
  then show ?case by simp
next
  case (Cons x xs)
  obtain a i where x: "x = (a, i)" by (cases x)
  have rest: "\<forall>x\<in>set xs. \<not> unresolved hs (snd x)" using Cons.prems by simp
  show ?case
  proof (cases "i_hypervisor i")
    case None
    then show ?thesis
      using Cons.IH [OF rest, of ih ib] x by (auto simp: warnings_of_def)
  next
    case (Some r)
    then obtain h where h: "hs (short_name r) = Some h"
      using Cons.prems x by (auto simp: unresolved_def hyp_of_def)
    show ?thesis
    proof (cases "pb (i_project_id i)")
      case None
      then show ?thesis
        using Cons.IH [OF rest, of ih ib] x Some h by (auto simp: warnings_of_def)
    next
      case (Some p)
      then show ?thesis
        using Cons.IH [OF rest, of "AList.update (i_id i) h ih" "AList.update (i_id i) a ib"] x
          \<open>i_hypervisor i = Some r\<close> h
        by (auto simp: warnings_of_def)
    qed
  qed
qed

lemma join_instances_exits:
  "\<exists>x\<in>set xs. unresolved hs (snd x) \<Longrightarrow>
   snd (join_instances hs pb xs ih ib) = Inl (SystemExit 1)"
proof (induction xs arbitrary: ih ib)
  case Nil
  then show ?case by simp
next
  case (Cons x xs)
  obtain a i where x: "x = (a, i)" by (cases x)
  show ?case
  proof (cases "unresolved hs i")
    case True
    then show ?thesis using x by (auto simp: unresolved_def hyp_of_def split: option.splits)
  next
    case False
    then have "\<exists>x\<in>set xs. unresolved hs (snd x)" using Cons.prems x by simp
    then have 1: "\<And>ih ib. snd (join_instances hs pb xs ih ib) = Inl (SystemExit 1)"
      using Cons.IH by blast
    then have 2: "\<And>ih ib lg r. join_instances hs pb xs ih ib = (lg, r) \<Longrightarrow> r = Inl (SystemExit 1)"
      by (metis snd_conv)
    show ?thesis using x 1 2
      by (auto split: option.splits prod.splits)
  qed
qed

lemma join_instances_Cons_cases:
  assumes "join_instances hs pb ((a, i) # xs) ih ib = (lg, Inr r)"
  obtains (dropped) lg' where "\<not> retained hs pb i" "join_instances hs pb xs ih ib = (lg', Inr r)"
  | (kept) h where "retained hs pb i" "hyp_of hs i = Some h"
      "join_instances hs pb xs (AList.update (i_id i) h ih) (AList.update (i_id i) a ib) = (lg, Inr r)"
  using assms
  by (auto simp: retained_def hyp_of_def split: option.splits prod.splits if_splits)

lemma join_instances_keys:
  "join_instances hs pb xs ih ib = (lg, Inr (ih', ib')) \<Longrightarrow>
   map fst ih = map fst ib \<Longrightarrow> distinct (map fst ib) \<Longrightarrow>
   map fst ih' = map fst ib' \<and> distinct (map fst ib')"
proof (induction xs arbitrary: ih ib lg)
  case Nil
  then show ?case by simp
next
  case (Cons x xs)
  obtain a i where x: "x = (a, i)" by (cases x)
  from Cons.prems(1) [unfolded x] show ?case
  proof (cases rule: join_instances_Cons_cases)
    case (dropped lg')
    then show ?thesis using Cons.IH Cons.prems(2,3) by blast
  next
    case (kept h)
    have "map fst (AList.update (i_id i) h ih) = map fst (AList.update (i_id i) a ib)"
      using Cons.prems(2) by (simp add: update_keys)
    moreover have "distinct (map fst (AList.update (i_id i) a ib))"
      using Cons.prems(3) by (rule distinct_update)
    ultimately show ?thesis using Cons.IH kept(3) by blast
  qed
qed

lemma join_instances_untouched:
  "join_instances hs pb xs ih ib = (lg, Inr (ih', ib')) \<Longrightarrow>
   \<forall>x\<in>set xs. retained hs pb (snd x) \<longrightarrow> i_id (snd x) \<noteq> k \<Longrightarrow>
   map_of ib' k = map_of ib k \<and> map_of ih' k = map_of ih k"
proof (induction xs arbitrary: ih ib lg)
  case Nil
  then show ?case by simp
next
  case (Cons x xs)
  obtain a i where x: "x = (a, i)" by (cases x)
  have rest: "\<forall>x\<in>set xs. retained hs pb (snd x) \<longrightarrow> i_id (snd x) \<noteq> k"
    using Cons.prems(2) by simp
  from Cons.prems(1) [unfolded x] show ?case
  proof (cases rule: join_instances_Cons_cases)
    case (dropped lg')
    then show ?thesis using Cons.IH rest by blast
  next
    case (kept h)
    have "i_id i \<noteq> k" using Cons.prems(2) kept(1) x by simp
    then show ?thesis using Cons.IH [OF kept(3) rest] by (simp add: update_conv')
  qed
qed

lemma join_instances_lookup:
  "join_instances hs pb xs ih ib = (lg, Inr (ih', ib')) \<Longrightarrow>
   sorted_wrt (<) (map fst xs) \<Longrightarrow>
   \<exists>x\<in>set xs. retained hs pb (snd x) \<and> i_id (snd x) = k \<Longrightarrow>
   \<exists>a i. (a, i) \<in> set xs \<and> retained hs pb i \<and> i_id i = k \<and>
     map_of ib' k = Some a \<and> map_of ih' k = hyp_of hs i \<and>
     (\<forall>x\<in>set xs. retained hs pb (snd x) \<and> i_id (snd x) = k \<longrightarrow> fst x \<le> a)"
proof (induction xs arbitrary: ih ib lg)
  case Nil
  then show ?case by simp
next
  case (Cons x xs)
  obtain a i where x: "x = (a, i)" by (cases x)
  have sorted: "sorted_wrt (<) (map fst xs)" and above: "\<forall>y\<in>set xs. a < fst y"
    using Cons.prems(2) x by auto
  from Cons.prems(1) [unfolded x] show ?case
  proof (cases rule: join_instances_Cons_cases)
    case (dropped lg')
    have "\<exists>x\<in>set xs. retained hs pb (snd x) \<and> i_id (snd x) = k"
      using Cons.prems(3) dropped(1) x by auto
    from Cons.IH [OF dropped(2) sorted this]
    obtain b j where bj: "(b, j) \<in> set xs" "retained hs pb j" "i_id j = k"
        "map_of ib' k = Some b" "map_of ih' k = hyp_of hs j"
        "\<forall>y\<in>set xs. retained hs pb (snd y) \<and> i_id (snd y) = k \<longrightarrow> fst y \<le> b"
      by blast
    have "\<forall>y\<in>set (x # xs). retained hs pb (snd y) \<and> i_id (snd y) = k \<longrightarrow> fst y \<le> b"
      using bj(6) dropped(1) x by simp
    moreover have "(b, j) \<in> set (x # xs)" using bj(1) by simp
    ultimately show ?thesis using bj(2-5) by blast
  next
    case (kept h)
    show ?thesis
    proof (cases "\<exists>y\<in>set xs. retained hs pb (snd y) \<and> i_id (snd y) = k")
      case True
      from Cons.IH [OF kept(3) sorted True]
      obtain b j where bj: "(b, j) \<in> set xs" "retained hs pb j" "i_id j = k"
        "map_of ib' k = Some b" "map_of ih' k = hyp_of hs j"
        "\<forall>y\<in>set xs. retained hs pb (snd y) \<and> i_id (snd y) = k \<longrightarrow> fst y \<le> b"
        by blast
      have "a < b" using above bj(1) by force
      then have "\<forall>y\<in>set (x # xs). retained hs pb (snd y) \<and> i_id (snd y) = k \<longrightarrow> fst y \<le> b"
        using bj(6) x by simp
      moreover have "(b, j) \<in> set (x # xs)" using bj(1) by simp
      ultimately show ?thesis using bj(2-5) by blast
    next
      case False
      then have none: "\<forall>x\<in>set xs. retained hs pb (snd x) \<longrightarrow> i_id (snd x) \<noteq> k" by blast
      have k: "i_id i = k" using Cons.prems(3) False x by auto
      have "map_of ib' k = Some a" "map_of ih' k = hyp_of hs i"
        using join_instances_untouched [OF kept(3) none] k kept(2) by (simp_all add: update_conv')
      moreover have "\<forall>y\<in>set (x # xs). retained hs pb (snd y) \<and> i_id (snd y) = k \<longrightarrow> fst y \<le> a"
        using none x by auto
      moreover have "(a, i) \<in> set (x # xs)" using x by simp
      ultimately show ?thesis using kept(1) k by blast
    qed
  qed
qed


section \<open>The loop that changes the instances\<close>

lemma enriched_simps [simp]:
  "i_id (enriched h p i) = i_id i"
  "i_hypervisor (enriched h p i) = i_hypervisor i"
  "i_project_id (enriched h p i) = i_project_id i"
  "i_availability_zone (enriched h p i) = h_availability_zone h"
  "i_project_display_name (enriched h p i) = Some (p_display_name p)"
  by (simp_all add: enriched_def)

lemma enrich_Cons:
  "map_of ib k = Some a \<Longrightarrow> map_of ih k = Some h \<Longrightarrow> pb (i_project_id (heap ! a)) = Some p \<Longrightarrow>
   enrich pb ih ib (k # ks) heap = enrich pb ih ib ks (heap[a := enriched h p (heap ! a)])"
  by (simp add: enriched_def)

lemma enrich_returns:
  "distinct ks \<Longrightarrow>
   \<forall>k\<in>set ks. \<exists>a h p. map_of ib k = Some a \<and> a < length heap \<and> i_id (heap ! a) = k \<and>
       map_of ih k = Some h \<and> pb (i_project_id (heap ! a)) = Some p \<Longrightarrow>
   \<exists>heap'. enrich pb ih ib ks heap = Inr heap' \<and> length heap' = length heap \<and>
     (\<forall>a<length heap.
        if i_id (heap ! a) \<in> set ks \<and> map_of ib (i_id (heap ! a)) = Some a
        then \<exists>h p. map_of ih (i_id (heap ! a)) = Some h \<and>
               pb (i_project_id (heap ! a)) = Some p \<and> heap' ! a = enriched h p (heap ! a)
        else heap' ! a = heap ! a)"
proof (induction ks arbitrary: heap)
  case Nil
  then show ?case by simp
next
  case (Cons k ks)
  obtain a h p where k: "map_of ib k = Some a" "a < length heap" "i_id (heap ! a) = k"
    "map_of ih k = Some h" "pb (i_project_id (heap ! a)) = Some p"
    using Cons.prems(2) by auto
  define heap1 where "heap1 = heap[a := enriched h p (heap ! a)]"
  have len1: "length heap1 = length heap" by (simp add: heap1_def)
  have at_a: "heap1 ! a = enriched h p (heap ! a)" using k(2) by (simp add: heap1_def)
  have other: "heap1 ! b = heap ! b" if "b \<noteq> a" for b using that by (simp add: heap1_def)
  have fresh: "k \<notin> set ks" and dist: "distinct ks" using Cons.prems(1) by simp_all
  have inv1: "\<forall>k'\<in>set ks. \<exists>a' h' p'. map_of ib k' = Some a' \<and> a' < length heap1 \<and>
      i_id (heap1 ! a') = k' \<and> map_of ih k' = Some h' \<and> pb (i_project_id (heap1 ! a')) = Some p'"
  proof
    fix k' assume k': "k' \<in> set ks"
    then obtain a' h' p' where *: "map_of ib k' = Some a'" "a' < length heap" "i_id (heap ! a') = k'"
      "map_of ih k' = Some h'" "pb (i_project_id (heap ! a')) = Some p'"
      using Cons.prems(2) by auto
    have "a' \<noteq> a" using * k(3) k' fresh by auto
    then show "\<exists>a' h' p'. map_of ib k' = Some a' \<and> a' < length heap1 \<and>
      i_id (heap1 ! a') = k' \<and> map_of ih k' = Some h' \<and> pb (i_project_id (heap1 ! a')) = Some p'"
      using * other len1 by auto
  qed
  from Cons.IH [OF dist inv1] obtain heap' where
    r: "enrich pb ih ib ks heap1 = Inr heap'" "length heap' = length heap1" and
    c: "\<forall>b<length heap1.
        if i_id (heap1 ! b) \<in> set ks \<and> map_of ib (i_id (heap1 ! b)) = Some b
        then \<exists>h p. map_of ih (i_id (heap1 ! b)) = Some h \<and>
               pb (i_project_id (heap1 ! b)) = Some p \<and> heap' ! b = enriched h p (heap1 ! b)
        else heap' ! b = heap1 ! b"
    by blast
  have "enrich pb ih ib (k # ks) heap = Inr heap'"
    using enrich_Cons [of ib k a ih h pb heap p ks] k(1,4,5) r(1) by (simp add: heap1_def)
  moreover have "length heap' = length heap" using r(2) len1 by simp
  moreover have "\<forall>b<length heap.
        if i_id (heap ! b) \<in> set (k # ks) \<and> map_of ib (i_id (heap ! b)) = Some b
        then \<exists>h p. map_of ih (i_id (heap ! b)) = Some h \<and>
               pb (i_project_id (heap ! b)) = Some p \<and> heap' ! b = enriched h p (heap ! b)
        else heap' ! b = heap ! b"
  proof (intro allI impI)
    fix b assume b: "b < length heap"
    show "if i_id (heap ! b) \<in> set (k # ks) \<and> map_of ib (i_id (heap ! b)) = Some b
        then \<exists>h p. map_of ih (i_id (heap ! b)) = Some h \<and>
               pb (i_project_id (heap ! b)) = Some p \<and> heap' ! b = enriched h p (heap ! b)
        else heap' ! b = heap ! b"
    proof (cases "b = a")
      case True
      have "heap' ! a = heap1 ! a"
        using c [rule_format, of a] k(2,3) len1 at_a fresh by simp
      then show ?thesis using True k at_a by auto
    next
      case False
      then have "i_id (heap ! b) = k \<Longrightarrow> map_of ib (i_id (heap ! b)) \<noteq> Some b"
        using k(1) by auto
      then show ?thesis
        using c [rule_format, of b] b len1 other [OF False] by auto
    qed
  qed
  ultimately show ?case by blast
qed

section \<open>The two dictionaries of instances after the loop\<close>

lemma last_retained_nth:
  "last_retained hs pb ins a \<longleftrightarrow>
     a < length ins \<and> retained hs pb (ins ! a) \<and>
     (\<forall>b<length ins. retained hs pb (ins ! b) \<and> i_id (ins ! b) = i_id (ins ! a) \<longrightarrow> b \<le> a)"
proof -
  have "(\<forall>j\<in>set (drop (Suc a) ins). retained hs pb j \<longrightarrow> i_id j \<noteq> i_id (ins ! a)) \<longleftrightarrow>
        (\<forall>b<length ins. retained hs pb (ins ! b) \<and> i_id (ins ! b) = i_id (ins ! a) \<longrightarrow> b \<le> a)"
    (is "?L \<longleftrightarrow> ?R")
  proof
    assume L: ?L
    show ?R
    proof (intro allI impI)
      fix b assume b: "b < length ins" "retained hs pb (ins ! b) \<and> i_id (ins ! b) = i_id (ins ! a)"
      show "b \<le> a"
      proof (rule ccontr)
        assume "\<not> b \<le> a"
        then have "ins ! b \<in> set (drop (Suc a) ins)"
          using b(1) by (auto simp: in_set_conv_nth intro!: exI [of _ "b - Suc a"])
        then show False using L b(2) by blast
      qed
    qed
  next
    assume R: ?R
    show ?L
    proof (intro ballI impI)
      fix j assume j: "j \<in> set (drop (Suc a) ins)" "retained hs pb j"
      then obtain n where n: "n < length ins - Suc a" "j = ins ! (Suc a + n)"
        by (auto simp: in_set_conv_nth)
      then have "Suc a + n < length ins" by simp
      then show "i_id j \<noteq> i_id (ins ! a)" using R j(2) n(2) by fastforce
    qed
  qed
  then show ?thesis by (simp add: last_retained_def)
qed

lemma join_enumerate:
  assumes "join_instances hs pb (enumerate 0 ins) [] [] = (lg, Inr (ih', ib'))"
  shows "map fst ih' = map fst ib'" and "distinct (map fst ib')"
    and "\<And>k a. (k, a) \<in> set ib' \<longleftrightarrow> last_retained hs pb ins a \<and> k = i_id (ins ! a)"
    and "\<And>k a. (k, a) \<in> set ib' \<Longrightarrow> map_of ih' k = hyp_of hs (ins ! a)"
proof -
  show keys: "map fst ih' = map fst ib'" and dist: "distinct (map fst ib')"
    using join_instances_keys [OF assms] by simp_all
  have sorted: "sorted_wrt (<) (map fst (enumerate 0 ins))"
    by simp
  have mem: "\<And>x. x \<in> set (enumerate 0 ins) \<longleftrightarrow> fst x < length ins \<and> ins ! fst x = snd x"
    by (simp add: in_set_enumerate_eq)
  have found: "\<exists>a. a < length ins \<and> retained hs pb (ins ! a) \<and> i_id (ins ! a) = k \<and>
      map_of ib' k = Some a \<and> map_of ih' k = hyp_of hs (ins ! a) \<and>
      (\<forall>b<length ins. retained hs pb (ins ! b) \<and> i_id (ins ! b) = k \<longrightarrow> b \<le> a)"
    if "b < length ins" "retained hs pb (ins ! b)" "i_id (ins ! b) = k" for k b
  proof -
    have "(b, ins ! b) \<in> set (enumerate 0 ins)"
      using that(1) by (simp add: in_set_enumerate_eq)
    then have "\<exists>x\<in>set (enumerate 0 ins). retained hs pb (snd x) \<and> i_id (snd x) = k"
      using that(2,3) by (intro bexI [of _ "(b, ins ! b)"]) simp_all
    from join_instances_lookup [OF assms sorted this]
    obtain a i where ai: "(a, i) \<in> set (enumerate 0 ins)" "retained hs pb i" "i_id i = k"
      "map_of ib' k = Some a" "map_of ih' k = hyp_of hs i"
      "\<forall>x\<in>set (enumerate 0 ins). retained hs pb (snd x) \<and> i_id (snd x) = k \<longrightarrow> fst x \<le> a"
      by blast
    have "a < length ins" "ins ! a = i" using ai(1) mem [of "(a, i)"] by simp_all
    moreover have "\<forall>b<length ins. retained hs pb (ins ! b) \<and> i_id (ins ! b) = k \<longrightarrow> b \<le> a"
    proof (intro allI impI)
      fix c assume c: "c < length ins" "retained hs pb (ins ! c) \<and> i_id (ins ! c) = k"
      then have "(c, ins ! c) \<in> set (enumerate 0 ins)"
        by (simp add: in_set_enumerate_eq)
      from ai(6) [rule_format, OF this] c(2) show "c \<le> a" by simp
    qed
    ultimately show ?thesis using ai(2-5) by blast
  qed
  have absent: "map_of ib' k = None"
    if "\<forall>b<length ins. retained hs pb (ins ! b) \<longrightarrow> i_id (ins ! b) \<noteq> k" for k
  proof -
    have "\<forall>x\<in>set (enumerate 0 ins). retained hs pb (snd x) \<longrightarrow> i_id (snd x) \<noteq> k"
    proof (intro ballI impI)
      fix x assume x: "x \<in> set (enumerate 0 ins)" "retained hs pb (snd x)"
      then have "fst x < length ins" "ins ! fst x = snd x"
        by (simp_all add: in_set_enumerate_eq)
      then show "i_id (snd x) \<noteq> k" using that x(2) by metis
    qed
    from join_instances_untouched [OF assms this] show ?thesis by simp
  qed
  have stored: "last_retained hs pb ins a \<and> k = i_id (ins ! a) \<and> map_of ih' k = hyp_of hs (ins ! a)"
    if "(k, a) \<in> set ib'" for k a
  proof -
    have ka: "map_of ib' k = Some a" using that dist by simp
    have "\<not> (\<forall>b<length ins. retained hs pb (ins ! b) \<longrightarrow> i_id (ins ! b) \<noteq> k)"
    proof
      assume "\<forall>b<length ins. retained hs pb (ins ! b) \<longrightarrow> i_id (ins ! b) \<noteq> k"
      from absent [OF this] ka show False by simp
    qed
    then obtain b where "b < length ins" "retained hs pb (ins ! b)" "i_id (ins ! b) = k"
      by blast
    from found [OF this] ka show ?thesis by (auto simp: last_retained_nth)
  qed
  show "(k, a) \<in> set ib' \<longleftrightarrow> last_retained hs pb ins a \<and> k = i_id (ins ! a)" for k a
  proof
    assume "(k, a) \<in> set ib'"
    then show "last_retained hs pb ins a \<and> k = i_id (ins ! a)" using stored by blast
  next
    assume r: "last_retained hs pb ins a \<and> k = i_id (ins ! a)"
    then have a: "a < length ins" "retained hs pb (ins ! a)" "i_id (ins ! a) = k"
      "\<forall>b<length ins. retained hs pb (ins ! b) \<and> i_id (ins ! b) = k \<longrightarrow> b \<le> a"
      by (simp_all add: last_retained_nth)
    from found [OF a(1-3)] obtain a' where a': "a' < length ins" "retained hs pb (ins ! a')"
      "i_id (ins ! a') = k" "map_of ib' k = Some a'"
      "\<forall>b<length ins. retained hs pb (ins ! b) \<and> i_id (ins ! b) = k \<longrightarrow> b \<le> a'"
      by blast
    have "a' \<le> a" using a(4) a'(1-3) by blast
    moreover have "a \<le> a'" using a'(5) a(1-3) by blast
    ultimately have "a' = a" by simp
    then show "(k, a) \<in> set ib'" using a'(4) by (simp add: map_of_SomeD)
  qed
  show "map_of ih' k = hyp_of hs (ins ! a)" if "(k, a) \<in> set ib'" for k a
    using stored [OF that] by blast
qed

section \<open>The whole run\<close>

lemma check_hypervisors_ok:
  "\<forall>h\<in>set hv. \<not> falsy (h_availability_zone h) \<Longrightarrow> check_hypervisors hv = ([], Inr ())"
  by (induction hv) simp_all

lemma check_hypervisors_first:
  "\<forall>x\<in>set pre. \<not> falsy (h_availability_zone x) \<Longrightarrow> falsy (h_availability_zone h) \<Longrightarrow>
   check_hypervisors (pre @ h # post) = ([(ERROR, No_availability_zone (h_id h))], Inl (SystemExit 1))"
  by (induction pre) simp_all

lemma check_hypervisors_Inr:
  "check_hypervisors hv = (lg, Inr u) \<Longrightarrow> (\<forall>h\<in>set hv. \<not> falsy (h_availability_zone h))"
  by (induction hv) (auto split: if_splits)

lemma active_instances_returns:
  fixes ins :: "'z inst_scheme list"
  assumes hv: "\<forall>h\<in>set hv. \<not> falsy (h_availability_zone h)"
    and res: "\<forall>i\<in>set ins. \<not> unresolved (hyp_short_of hv) i"
  shows "\<exists>addrs ins'. active_instances hv ins pr = (run_log hv ins pr, Inr (addrs, ins')) \<and>
           distinct (map (\<lambda>a. i_id (ins ! a)) addrs) \<and>
           (\<forall>a. a \<in> set addrs \<longleftrightarrow> last_retained (hyp_short_of hv) (project_by_id_of pr) ins a) \<and>
           length ins' = length ins \<and>
           (\<forall>a<length ins. a \<notin> set addrs \<longrightarrow> ins' ! a = ins ! a) \<and>
           (\<forall>a\<in>set addrs. \<exists>h p. hyp_of (hyp_short_of hv) (ins ! a) = Some h \<and>
               project_by_id_of pr (i_project_id (ins ! a)) = Some p \<and>
               ins' ! a = enriched h p (ins ! a))"
proof -
  define hs where "hs = hyp_short_of hv"
  define pb where "pb = project_by_id_of pr"
  have "\<forall>x\<in>set (enumerate 0 ins). \<not> unresolved hs (snd x)"
  proof
    fix x assume "x \<in> set (enumerate 0 ins)"
    then have "snd x \<in> set (map snd (enumerate 0 ins))" by (simp only: set_map) (rule imageI)
    then show "\<not> unresolved hs (snd x)" using res by (simp add: hs_def)
  qed
  from join_instances_returns [OF this, of pb "[]" "[]"]
  obtain ih' ib' where
    j0: "join_instances hs pb (enumerate 0 ins) [] [] =
         (concat (map (\<lambda>x. warnings_of pb (snd x)) (enumerate 0 ins)), Inr (ih', ib'))"
    by blast
  have "map (\<lambda>x. warnings_of pb (snd x)) (enumerate 0 ins) = map (warnings_of pb) (map snd (enumerate 0 ins))"
    by (simp only: map_map comp_def)
  then have j: "join_instances hs pb (enumerate 0 ins) [] [] =
         (concat (map (warnings_of pb) ins), Inr (ih', ib'))"
    using j0 by simp
  note je = join_enumerate [OF j]
  have dist: "distinct (map fst ih')" using je(1,2) by simp
  have key: "map_of ib' k = Some a \<and> a < length ins \<and> i_id (ins ! a) = k \<and>
      map_of ih' k = hyp_of hs (ins ! a) \<and> retained hs pb (ins ! a)"
    if "(k, a) \<in> set ib'" for k a
  proof -
    have "last_retained hs pb ins a" "k = i_id (ins ! a)" using je(3) that by blast+
    moreover have "map_of ib' k = Some a" using that je(2) by simp
    ultimately show ?thesis using je(4) [OF that] by (simp add: last_retained_def)
  qed
  have pre: "\<forall>k\<in>set (map fst ih'). \<exists>a h p. map_of ib' k = Some a \<and> a < length ins \<and>
      i_id (ins ! a) = k \<and> map_of ih' k = Some h \<and> pb (i_project_id (ins ! a)) = Some p"
  proof
    fix k assume "k \<in> set (map fst ih')"
    then have "k \<in> fst ` set ib'" using je(1) by simp
    then obtain a where ka: "(k, a) \<in> set ib'" by force
    from key [OF ka] show "\<exists>a h p. map_of ib' k = Some a \<and> a < length ins \<and>
      i_id (ins ! a) = k \<and> map_of ih' k = Some h \<and> pb (i_project_id (ins ! a)) = Some p"
      by (auto simp: retained_def)
  qed
  from enrich_returns [OF dist pre] obtain heap' where
    e: "enrich pb ih' ib' (map fst ih') ins = Inr heap'" and len: "length heap' = length ins" and
    h: "\<forall>a<length ins.
        if i_id (ins ! a) \<in> set (map fst ih') \<and> map_of ib' (i_id (ins ! a)) = Some a
        then \<exists>h p. map_of ih' (i_id (ins ! a)) = Some h \<and>
               pb (i_project_id (ins ! a)) = Some p \<and> heap' ! a = enriched h p (ins ! a)
        else heap' ! a = ins ! a"
    by blast
  obtain lg2 where split: "build_hyp_short hv Map.empty = (hs, lg2)"
    unfolding hs_def hyp_short_of_def by (cases "build_hyp_short hv Map.empty") simp
  have pb: "build_project_by_id pr Map.empty = pb"
    by (simp add: pb_def project_by_id_of_def)
  have "active_instances hv ins pr =
      ((DEBUG, Checked_hypervisor_AZ) # lg2 @ concat (map (warnings_of pb) ins)
         @ [(DEBUG, Checked_instance_hypervisor)], Inr (map snd ib', heap'))"
    unfolding active_instances_def check_hypervisors_ok [OF hv] split pb
    using j e by simp
  then have run: "active_instances hv ins pr = (run_log hv ins pr, Inr (map snd ib', heap'))"
    by (simp add: run_log_def split pb_def)
  have mem: "a \<in> set (map snd ib') \<longleftrightarrow> (i_id (ins ! a), a) \<in> set ib'" for a
  proof
    assume "a \<in> set (map snd ib')"
    then obtain k where "(k, a) \<in> set ib'" by force
    then show "(i_id (ins ! a), a) \<in> set ib'" using key by blast
  next
    assume "(i_id (ins ! a), a) \<in> set ib'"
    then show "a \<in> set (map snd ib')" by force
  qed
  have "map (\<lambda>a. i_id (ins ! a)) (map snd ib') = map fst ib'"
    using key by (auto simp: map_eq_conv)
  then have d: "distinct (map (\<lambda>a. i_id (ins ! a)) (map snd ib'))"
    using je(2) by (simp only:)
  have s: "\<forall>a. a \<in> set (map snd ib') \<longleftrightarrow> last_retained hs pb ins a"
    using mem je(3) by blast
  have cond: "(i_id (ins ! a) \<in> set (map fst ih') \<and> map_of ib' (i_id (ins ! a)) = Some a) \<longleftrightarrow>
      a \<in> set (map snd ib')" for a
  proof
    assume "i_id (ins ! a) \<in> set (map fst ih') \<and> map_of ib' (i_id (ins ! a)) = Some a"
    then have "(i_id (ins ! a), a) \<in> set ib'" by (simp add: map_of_SomeD)
    then show "a \<in> set (map snd ib')" using mem by simp
  next
    assume "a \<in> set (map snd ib')"
    then have m: "(i_id (ins ! a), a) \<in> set ib'" using mem by simp
    then have "i_id (ins ! a) \<in> fst ` set ib'" by force
    then show "i_id (ins ! a) \<in> set (map fst ih') \<and> map_of ib' (i_id (ins ! a)) = Some a"
      using key [OF m] je(1) by simp
  qed
  have u: "\<forall>a<length ins. a \<notin> set (map snd ib') \<longrightarrow> heap' ! a = ins ! a"
    using h cond by (simp only:) simp
  have c: "\<forall>a\<in>set (map snd ib'). \<exists>h p. hyp_of hs (ins ! a) = Some h \<and>
               pb (i_project_id (ins ! a)) = Some p \<and> heap' ! a = enriched h p (ins ! a)"
  proof
    fix a assume a: "a \<in> set (map snd ib')"
    then have m: "(i_id (ins ! a), a) \<in> set ib'" using mem by simp
    have "a < length ins" "map_of ih' (i_id (ins ! a)) = hyp_of hs (ins ! a)"
      using key [OF m] by simp_all
    moreover have "i_id (ins ! a) \<in> set (map fst ih') \<and> map_of ib' (i_id (ins ! a)) = Some a"
      using cond a by simp
    ultimately show "\<exists>h p. hyp_of hs (ins ! a) = Some h \<and>
               pb (i_project_id (ins ! a)) = Some p \<and> heap' ! a = enriched h p (ins ! a)"
      using h [rule_format, of a] by simp
  qed
  show ?thesis
    using run d s len u c unfolding hs_def pb_def by blast
qed

lemma join_instances_stops:
  "\<forall>x\<in>set xs. \<not> unresolved hs (snd x) \<Longrightarrow> unresolved hs i \<Longrightarrow>
   join_instances hs pb (xs @ (a, i) # ys) ih ib =
     (concat (map (\<lambda>x. warnings_of pb (snd x)) xs) @ [(ERROR, No_hypervisor_for_instance (i_id i))],
      Inl (SystemExit 1))"
proof (induction xs arbitrary: ih ib)
  case Nil
  then show ?case by (auto simp: unresolved_def hyp_of_def split: option.splits)
next
  case (Cons x xs)
  obtain b j where x: "x = (b, j)" by (cases x)
  have IH: "\<And>ih ib. join_instances hs pb (xs @ (a, i) # ys) ih ib =
     (concat (map (\<lambda>x. warnings_of pb (snd x)) xs) @ [(ERROR, No_hypervisor_for_instance (i_id i))],
      Inl (SystemExit 1))"
    using Cons.IH Cons.prems by simp
  have "\<not> unresolved hs j" using Cons.prems(1) x by simp
  then show ?case
    using x by (auto simp: IH warnings_of_def unresolved_def hyp_of_def split: option.splits)
qed

lemma active_instances_exits_hypervisor:
  "\<forall>x\<in>set pre. \<not> falsy (h_availability_zone x) \<Longrightarrow> falsy (h_availability_zone h) \<Longrightarrow>
   active_instances (pre @ h # post) ins pr =
     ([(ERROR, No_availability_zone (h_id h))], Inl (SystemExit 1))"
  by (simp add: active_instances_def check_hypervisors_first del: check_hypervisors.simps)

lemma active_instances_exits_instance:
  assumes hv: "\<forall>h\<in>set hv. \<not> falsy (h_availability_zone h)"
    and pre: "\<forall>j\<in>set pre. \<not> unresolved (hyp_short_of hv) j"
    and i: "unresolved (hyp_short_of hv) i"
  shows "active_instances hv (pre @ i # post) pr =
     ((DEBUG, Checked_hypervisor_AZ) # snd (build_hyp_short hv Map.empty)
        @ concat (map (warnings_of (project_by_id_of pr)) pre)
        @ [(ERROR, No_hypervisor_for_instance (i_id i))],
      Inl (SystemExit 1))"
proof -
  define hs where "hs = hyp_short_of hv"
  define pb where "pb = project_by_id_of pr"
  obtain lg2 where split: "build_hyp_short hv Map.empty = (hs, lg2)"
    unfolding hs_def hyp_short_of_def by (cases "build_hyp_short hv Map.empty") simp
  have pb: "build_project_by_id pr Map.empty = pb"
    by (simp add: pb_def project_by_id_of_def)
  have en: "enumerate 0 (pre @ i # post) =
      enumerate 0 pre @ (length pre, i) # enumerate (Suc (length pre)) post"
    by (simp add: enumerate_append_eq)
  have "\<forall>x\<in>set (enumerate 0 pre). \<not> unresolved hs (snd x)"
  proof
    fix x assume "x \<in> set (enumerate 0 pre)"
    then have "snd x \<in> set (map snd (enumerate 0 pre))" by (simp only: set_map) (rule imageI)
    then show "\<not> unresolved hs (snd x)" using pre by (simp add: hs_def)
  qed
  from join_instances_stops [OF this, of i pb "length pre" "enumerate (Suc (length pre)) post" "[]" "[]"] i
  have "join_instances hs pb (enumerate 0 (pre @ i # post)) [] [] =
     (concat (map (\<lambda>x. warnings_of pb (snd x)) (enumerate 0 pre))
        @ [(ERROR, No_hypervisor_for_instance (i_id i))], Inl (SystemExit 1))"
    by (simp add: en hs_def)
  moreover have "map (\<lambda>x. warnings_of pb (snd x)) (enumerate 0 pre) =
      map (warnings_of pb) (map snd (enumerate 0 pre))"
    by (simp only: map_map comp_def)
  ultimately have j: "join_instances hs pb (enumerate 0 (pre @ i # post)) [] [] =
     (concat (map (warnings_of pb) pre) @ [(ERROR, No_hypervisor_for_instance (i_id i))],
      Inl (SystemExit 1))"
    by simp
  have "active_instances hv (pre @ i # post) pr =
      ((DEBUG, Checked_hypervisor_AZ) # lg2 @ concat (map (warnings_of pb) pre)
         @ [(ERROR, No_hypervisor_for_instance (i_id i))], Inl (SystemExit 1))"
    unfolding active_instances_def check_hypervisors_ok [OF hv] split pb
    using j by simp
  then show ?thesis by (simp add: split pb_def)
qed

lemma active_instances_Inr:
  assumes "active_instances hv ins pr = (lg, Inr r)"
  shows "\<forall>h\<in>set hv. \<not> falsy (h_availability_zone h)"
    and "\<forall>i\<in>set ins. \<not> unresolved (hyp_short_of hv) i"
proof -
  obtain lg1 c where c: "check_hypervisors hv = (lg1, c)" by (cases "check_hypervisors hv")
  have "\<exists>u. c = Inr u"
    using assms c by (cases c) (simp_all add: active_instances_def)
  then show hv: "\<forall>h\<in>set hv. \<not> falsy (h_availability_zone h)"
    using c check_hypervisors_Inr by blast
  show "\<forall>i\<in>set ins. \<not> unresolved (hyp_short_of hv) i"
  proof (rule ccontr)
    assume "\<not> (\<forall>i\<in>set ins. \<not> unresolved (hyp_short_of hv) i)"
    then have "\<exists>x\<in>set ins. unresolved (hyp_short_of hv) x" by blast
    from split_list_first_prop [OF this]
    obtain pre x post where ins: "ins = pre @ x # post" "unresolved (hyp_short_of hv) x"
      "\<forall>j\<in>set pre. \<not> unresolved (hyp_short_of hv) j"
      by blast
    show False
      using assms active_instances_exits_instance [OF hv ins(3,2), of post pr] ins(1) by simp
  qed
qed

lemma find_first:
  "\<forall>x\<in>set pre. \<not> P x \<Longrightarrow> P h \<Longrightarrow> find P (pre @ h # post) = Some h"
  by (induction pre) simp_all

lemma active_instances_exits_any:
  assumes "i \<in> set ins" "unresolved (hyp_short_of hv) i"
  shows "snd (active_instances hv ins pr) = Inl (SystemExit 1)"
proof (cases "\<forall>h\<in>set hv. \<not> falsy (h_availability_zone h)")
  case True
  have "\<exists>x\<in>set ins. unresolved (hyp_short_of hv) x" using assms by blast
  from split_list_first_prop [OF this]
  obtain pre x post where ins: "ins = pre @ x # post" "unresolved (hyp_short_of hv) x"
    "\<forall>j\<in>set pre. \<not> unresolved (hyp_short_of hv) j"
    by blast
  show ?thesis
    using active_instances_exits_instance [OF True ins(3,2), of post pr] ins(1) by simp
next
  case False
  then have "\<exists>h\<in>set hv. falsy (h_availability_zone h)" by blast
  from split_list_first_prop [OF this]
  obtain pre h post where hv: "hv = pre @ h # post" "falsy (h_availability_zone h)"
    "\<forall>x\<in>set pre. \<not> falsy (h_availability_zone x)"
    by blast
  show ?thesis
    using active_instances_exits_hypervisor [OF hv(3,2), of post ins pr] hv(1) by simp
qed

lemma active_instances_Inr_facts:
  fixes ins :: "'z inst_scheme list"
  assumes run: "active_instances hv ins pr = (lg, Inr (addrs, ins'))"
  shows "lg = run_log hv ins pr"
    and "distinct (map (\<lambda>a. i_id (ins ! a)) addrs)"
    and "\<And>a. a \<in> set addrs \<longleftrightarrow> last_retained (hyp_short_of hv) (project_by_id_of pr) ins a"
    and "length ins' = length ins"
    and "\<And>a. a < length ins \<Longrightarrow> a \<notin> set addrs \<Longrightarrow> ins' ! a = ins ! a"
    and "\<And>a. a \<in> set addrs \<Longrightarrow> \<exists>h p. hyp_of (hyp_short_of hv) (ins ! a) = Some h \<and>
               project_by_id_of pr (i_project_id (ins ! a)) = Some p \<and>
               ins' ! a = enriched h p (ins ! a)"
proof -
  note ok = active_instances_Inr [OF run]
  from active_instances_returns [OF ok, of pr] run
  have *: "lg = run_log hv ins pr \<and>
           distinct (map (\<lambda>a. i_id (ins ! a)) addrs) \<and>
           (\<forall>a. a \<in> set addrs \<longleftrightarrow> last_retained (hyp_short_of hv) (project_by_id_of pr) ins a) \<and>
           length ins' = length ins \<and>
           (\<forall>a<length ins. a \<notin> set addrs \<longrightarrow> ins' ! a = ins ! a) \<and>
           (\<forall>a\<in>set addrs. \<exists>h p. hyp_of (hyp_short_of hv) (ins ! a) = Some h \<and>
               project_by_id_of pr (i_project_id (ins ! a)) = Some p \<and>
               ins' ! a = enriched h p (ins ! a))"
    by auto
  show "lg = run_log hv ins pr" using * by blast
  show "distinct (map (\<lambda>a. i_id (ins ! a)) addrs)" using * by blast
  show "\<And>a. a \<in> set addrs \<longleftrightarrow> last_retained (hyp_short_of hv) (project_by_id_of pr) ins a"
    using * by blast
  show "length ins' = length ins" using * by blast
  show "\<And>a. a < length ins \<Longrightarrow> a \<notin> set addrs \<Longrightarrow> ins' ! a = ins ! a" using * by blast
  show "\<And>a. a \<in> set addrs \<Longrightarrow> \<exists>h p. hyp_of (hyp_short_of hv) (ins ! a) = Some h \<and>
               project_by_id_of pr (i_project_id (ins ! a)) = Some p \<and>
               ins' ! a = enriched h p (ins ! a)"
    using * by blast
qed

section \<open>Further facts about a run, and the run on the example data\<close>

lemmas ex_hypervisors = ex_H1_def ex_H2_def ex_H3_def ex_H4_def

lemmas ex_instances = ex_I1_def ex_I2_def ex_I3_def ex_I4_def ex_I5_def ex_I6_def

lemma keep_or_replace_in_set:
  "keep_or_replace m h s = Some x \<Longrightarrow> x = h \<or> m s = Some x"
  by (auto simp: keep_or_replace_def split: option.splits if_splits)

lemma build_hyp_short_in_set:
  "fst (build_hyp_short hv m) s = Some x \<Longrightarrow> x \<in> set hv \<or> m s = Some x"
proof (induction hv arbitrary: m)
  case Nil
  then show ?case by simp
next
  case (Cons h hv)
  have "fst (build_hyp_short hv (keep_or_replace m h)) s = Some x"
    using Cons.prems by (simp only: fst_build_hyp_short_Cons)
  then have "x \<in> set hv \<or> keep_or_replace m h s = Some x" by (rule Cons.IH)
  then show ?case using keep_or_replace_in_set [of m h s x] by auto
qed

lemma hyp_short_of_in_set: "hyp_short_of hv s = Some x \<Longrightarrow> x \<in> set hv"
  using build_hyp_short_in_set [of hv Map.empty s x] by (simp add: hyp_short_of_def)

lemma build_hyp_short_log:
  "e \<in> set (snd (build_hyp_short hv m)) \<Longrightarrow> \<exists>s a b. e = (WARNING, Duplicate_short_names s a b)"
proof (induction hv arbitrary: m)
  case Nil
  then show ?case by simp
next
  case (Cons h hv)
  show ?case
  proof (cases "m (short_name (h_hostname h))")
    case None
    then show ?thesis using Cons.prems Cons.IH by (simp add: Let_def)
  next
    case (Some old)
    then show ?thesis using Cons.prems Cons.IH
      by (auto simp: Let_def split: if_splits prod.splits) (metis snd_conv)+
  qed
qed

lemma ex_run:
  "active_instances [ex_H1, ex_H2] [ex_I1, ex_I2, ex_I4, ex_I5] [ex_P1] =
     ([(DEBUG, Checked_hypervisor_AZ), (WARNING, Duplicate_short_names ''a'' ''H1'' ''H2''),
       (WARNING, Instance_no_hypervisor ''I1''), (WARNING, Invalid_project_id ''I2'' ''UNKNOWN''),
       (DEBUG, Checked_instance_hypervisor)],
      Inr ([3], [ex_I1, ex_I2, ex_I4,
                 ex_I5\<lparr>i_availability_zone := Some ''az2'',
                       i_project_display_name := Some ''Team Alpha''\<rparr>]))"
  by (simp add: active_instances_def falsy_def short_name_def Let_def
      ex_hypervisors ex_instances ex_P1_def)

lemma build_hyp_short_log_no_instance:
  "filter (\<lambda>e. e = (WARNING, Instance_no_hypervisor x)) (snd (build_hyp_short hv m)) = []"
  using build_hyp_short_log [of _ hv m] by (fastforce simp: filter_empty_conv)

lemma count_instance_no_hypervisor:
  "length (filter (\<lambda>e. e = (WARNING, Instance_no_hypervisor x)) (concat (map (warnings_of pb) ins))) =
   length (filter (\<lambda>i. i_hypervisor i = None \<and> i_id i = x) ins)"
  by (induction ins) (auto simp: warnings_of_def)

lemma run_log_count_no_hypervisor:
  "length (filter (\<lambda>e. e = (WARNING, Instance_no_hypervisor x)) (run_log hv ins pr)) =
   length (filter (\<lambda>i. i_hypervisor i = None \<and> i_id i = x) ins)"
  by (simp add: run_log_def build_hyp_short_log_no_instance count_instance_no_hypervisor)

lemma output_record_origin:
  assumes "active_instances hv ins pr = (lg, Inr (addrs, ins'))"
    "r \<in> set (output_records (addrs, ins'))"
  shows "\<exists>a h p. a \<in> set addrs \<and> a < length ins \<and> r = enriched h p (ins ! a) \<and>
     hyp_of (hyp_short_of hv) (ins ! a) = Some h \<and>
     project_by_id_of pr (i_project_id (ins ! a)) = Some p"
proof -
  obtain a where a: "a \<in> set addrs" "r = ins' ! a"
    using assms(2) by (auto simp: output_records_def)
  have "a < length ins"
    using active_instances_Inr_facts(3) [OF assms(1)] a(1) by (simp add: last_retained_def)
  then show ?thesis
    using active_instances_Inr_facts(6) [OF assms(1) a(1)] a by auto
qed

lemma join_instances_cong:
  "list_all2 (\<lambda>x y. fst x = fst y \<and> same_keys (snd x) (snd y)) xs ys \<Longrightarrow>
   join_instances hs pb xs ih ib = join_instances hs pb ys ih ib"
proof (induction xs ys arbitrary: ih ib rule: list_all2_induct)
  case Nil
  then show ?case by simp
next
  case (Cons x xs y ys)
  obtain a i where x: "x = (a, i)" by (cases x)
  obtain b j where y: "y = (b, j)" by (cases y)
  have "b = a" "i_id j = i_id i" "i_hypervisor j = i_hypervisor i" "i_project_id j = i_project_id i"
    using Cons.hyps(1) x y by (simp_all add: same_keys_def)
  then show ?case
    using Cons.IH x y by (auto split: option.splits)
qed

lemma active_instances_addrs:
  assumes "active_instances hv ins pr = (lg, Inr (addrs, ins'))"
  shows "\<exists>lg3 ih ib. join_instances (hyp_short_of hv) (project_by_id_of pr) (enumerate 0 ins) [] [] =
           (lg3, Inr (ih, ib)) \<and> addrs = map snd ib"
proof -
  obtain hs lg2 where split: "build_hyp_short hv Map.empty = (hs, lg2)"
    by (cases "build_hyp_short hv Map.empty")
  have hs: "hyp_short_of hv = hs" by (simp add: hyp_short_of_def split)
  note ok = active_instances_Inr [OF assms]
  obtain lg3 j where j: "join_instances hs (build_project_by_id pr Map.empty) (enumerate 0 ins) [] [] = (lg3, j)"
    by (cases "join_instances hs (build_project_by_id pr Map.empty) (enumerate 0 ins) [] []")
  show ?thesis
  proof (cases j)
    case (Inl e)
    then show ?thesis
      using assms j by (simp add: active_instances_def check_hypervisors_ok [OF ok(1)] split)
  next
    case (Inr r)
    obtain ih ib where r: "r = (ih, ib)" by (cases r)
    have "addrs = map snd ib"
      using assms j Inr r
      by (auto simp: active_instances_def check_hypervisors_ok [OF ok(1)] split Let_def
          split: sum.splits)
    then show ?thesis using j Inr r by (simp add: hs project_by_id_of_def)
  qed
qed

lemma enriched_idem [simp]: "enriched h p (enriched h p i) = enriched h p i"
  by (simp add: enriched_def)

lemma same_keys_enriched [simp]: "same_keys (enriched h p i) i"
  by (simp add: same_keys_def)

lemma same_keys_refl [simp]: "same_keys i i"
  by (simp add: same_keys_def)

lemma same_keys_hyp_of: "same_keys i j \<Longrightarrow> hyp_of hs i = hyp_of hs j"
  by (simp add: same_keys_def hyp_of_def)

lemma same_keys_warnings_of: "same_keys i j \<Longrightarrow> warnings_of pb i = warnings_of pb j"
  by (simp add: same_keys_def warnings_of_def)

section \<open>Properties of the specification\<close>

text \<open>
  C1, as stated, at two hypervisors with the short name \<open>a\<close> and the same
  \<open>last_seen\<close>: the dictionary does not hold the one met first.
\<close>

theorem hyp_short_tie_keeps_first_counterexample:
  "short_name (h_hostname ex_H1) = short_name (h_hostname ex_H4) \<and>
   h_last_seen ex_H1 = h_last_seen ex_H4 \<and>
   hyp_short_of [ex_H1, ex_H4] (short_name (h_hostname ex_H1)) \<noteq> Some ex_H1"
  by (simp add: hyp_short_of_def ex_hypervisors short_name_def Let_def)

text \<open>
  C1, amended: among the hypervisors with one short name, the dictionary holds the one
  with the greatest \<open>last_seen\<close>, and of several with that greatest value the one met
  last. That is: a hypervisor \<open>h\<close> that no earlier namesake exceeds and that every later
  namesake is strictly below is the entry of its short name.
\<close>

theorem hyp_short_keeps_latest:
  "short_name (h_hostname h) = s \<Longrightarrow>
   \<forall>x\<in>set xs. short_name (h_hostname x) = s \<longrightarrow> h_last_seen x \<le> h_last_seen h \<Longrightarrow>
   \<forall>y\<in>set ys. short_name (h_hostname y) = s \<longrightarrow> h_last_seen y < h_last_seen h \<Longrightarrow>
   hyp_short_of (xs @ h # ys) s = Some h"
  unfolding hyp_short_of_def by (rule build_hyp_short_latest) simp_all

theorem hyp_short_keeps_latest_witness:
  "hyp_short_of ([ex_H1] @ ex_H4 # [ex_H3]) ''a'' = Some ex_H4"
proof -
  have 1: "short_name (h_hostname ex_H4) = ''a''"
    by (simp add: ex_hypervisors short_name_def)
  have 2: "\<forall>x\<in>set [ex_H1]. short_name (h_hostname x) = ''a'' \<longrightarrow> h_last_seen x \<le> h_last_seen ex_H4"
    by (simp add: ex_hypervisors)
  have 3: "\<forall>y\<in>set [ex_H3]. short_name (h_hostname y) = ''a'' \<longrightarrow> h_last_seen y < h_last_seen ex_H4"
    by (simp add: ex_hypervisors short_name_def)
  show ?thesis
    using hyp_short_keeps_latest [OF 1 2 3] .
qed

text \<open>
  C3: when some hypervisor has no availability zone (\<^verbatim>\<open>None\<close> or the empty string), the
  run exits with status 1 and yields nothing. The only thing logged is the error that
  names the first such hypervisor in input order, so neither the short-name dictionary
  (which would log duplicates) nor the instances have been looked at; the outcome is the
  same for all instances and projects.
\<close>

theorem missing_availability_zone_is_fatal:
  assumes "h \<in> set hv" "falsy (h_availability_zone h)"
  shows "\<exists>h'. find (\<lambda>h. falsy (h_availability_zone h)) hv = Some h' \<and>
           active_instances hv ins pr =
             ([(ERROR, No_availability_zone (h_id h'))], Inl (SystemExit 1))"
proof -
  have "\<exists>h\<in>set hv. falsy (h_availability_zone h)" using assms by blast
  from split_list_first_prop [OF this]
  obtain pre h' post where hv: "hv = pre @ h' # post" "falsy (h_availability_zone h')"
    "\<forall>x\<in>set pre. \<not> falsy (h_availability_zone x)"
    by blast
  have "find (\<lambda>h. falsy (h_availability_zone h)) hv = Some h'"
    unfolding hv(1) using hv(3,2) by (rule find_first)
  moreover have "active_instances hv ins pr =
      ([(ERROR, No_availability_zone (h_id h'))], Inl (SystemExit 1))"
    unfolding hv(1) using hv(3,2) by (rule active_instances_exits_hypervisor)
  ultimately show ?thesis by blast
qed

theorem missing_availability_zone_is_fatal_witness:
  "active_instances [ex_H1, ex_H2, ex_H3] [ex_I3, ex_I4] [ex_P1] =
     ([(ERROR, No_availability_zone ''H3'')], Inl (SystemExit 1))"
proof -
  have 1: "ex_H3 \<in> set [ex_H1, ex_H2, ex_H3]" by simp
  have 2: "falsy (h_availability_zone ex_H3)" by (simp add: ex_H3_def falsy_def)
  have 3: "find (\<lambda>h. falsy (h_availability_zone h)) [ex_H1, ex_H2, ex_H3] = Some ex_H3"
    by (simp add: ex_hypervisors falsy_def)
  have 4: "h_id ex_H3 = ''H3''" by (simp add: ex_H3_def)
  show ?thesis
    using missing_availability_zone_is_fatal [OF 1 2, of "[ex_I3, ex_I4]" "[ex_P1]"] 3 4
    by auto
qed

text \<open>
  C4: an instance whose hypervisor reference is not \<^verbatim>\<open>None\<close> and whose short name is
  not a key of the short-name dictionary makes the run exit with status 1, whatever its
  project id is and whatever else was fetched. When the hypervisors passed their check
  and no earlier instance has the same defect, the last thing logged is the error that
  names this instance.
\<close>

theorem unknown_hypervisor_is_fatal:
  assumes "i_hypervisor i = Some ref" "hyp_short_of hv (short_name ref) = None"
  shows "snd (active_instances hv (pre @ i # post) pr) = Inl (SystemExit 1) \<and>
         ((\<forall>h\<in>set hv. \<not> falsy (h_availability_zone h)) \<and>
          (\<forall>j\<in>set pre. \<not> unresolved (hyp_short_of hv) j) \<longrightarrow>
          fst (active_instances hv (pre @ i # post) pr) =
            (DEBUG, Checked_hypervisor_AZ) # snd (build_hyp_short hv Map.empty)
              @ concat (map (warnings_of (project_by_id_of pr)) pre)
              @ [(ERROR, No_hypervisor_for_instance (i_id i))])"
proof -
  have u: "unresolved (hyp_short_of hv) i"
    using assms by (simp add: unresolved_def hyp_of_def)
  have "snd (active_instances hv (pre @ i # post) pr) = Inl (SystemExit 1)"
    using active_instances_exits_any [OF _ u, of "pre @ i # post" pr] by simp
  then show ?thesis
    using active_instances_exits_instance [OF _ _ u, of pre post pr] by simp
qed

theorem unknown_hypervisor_is_fatal_witness:
  "active_instances [ex_H1, ex_H2] ([ex_I1, ex_I4] @ ex_I6 # [ex_I3]) [ex_P1] =
     ([(DEBUG, Checked_hypervisor_AZ), (WARNING, Duplicate_short_names ''a'' ''H1'' ''H2''),
       (WARNING, Instance_no_hypervisor ''I1''), (ERROR, No_hypervisor_for_instance ''I6'')],
      Inl (SystemExit 1))"
proof -
  have 1: "i_hypervisor ex_I6 = Some ''unknown''" by (simp add: ex_I6_def)
  have 2: "hyp_short_of [ex_H1, ex_H2] (short_name ''unknown'') = None"
    by (simp add: hyp_short_of_def ex_hypervisors short_name_def Let_def)
  have 3: "\<forall>h\<in>set [ex_H1, ex_H2]. \<not> falsy (h_availability_zone h)"
    by (simp add: ex_hypervisors falsy_def)
  have 4: "\<forall>j\<in>set [ex_I1, ex_I4]. \<not> unresolved (hyp_short_of [ex_H1, ex_H2]) j"
    by (simp add: unresolved_def hyp_of_def hyp_short_of_def ex_hypervisors ex_instances
        short_name_def Let_def)
  have 5: "(DEBUG, Checked_hypervisor_AZ) # snd (build_hyp_short [ex_H1, ex_H2] Map.empty)
              @ concat (map (warnings_of (project_by_id_of [ex_P1])) [ex_I1, ex_I4])
              @ [(ERROR, No_hypervisor_for_instance (i_id ex_I6))] =
      [(DEBUG, Checked_hypervisor_AZ), (WARNING, Duplicate_short_names ''a'' ''H1'' ''H2''),
       (WARNING, Instance_no_hypervisor ''I1''), (ERROR, No_hypervisor_for_instance ''I6'')]"
    by (simp add: warnings_of_def project_by_id_of_def ex_hypervisors ex_instances ex_P1_def
        short_name_def Let_def)
  show ?thesis
    using unknown_hypervisor_is_fatal [OF 1 2, of "[ex_I1, ex_I4]" "[ex_I3]" "[ex_P1]"] 3 4 5
    by (simp add: prod_eq_iff)
qed

text \<open>
  C7: in a run that returns, the object at every returned address (a yielded record)
  has the availability zone of the hypervisor that the fetched instance resolves to,
  whatever zone was fetched, and a \<^verbatim>\<open>project_display_name\<close> that is the
  \<^verbatim>\<open>display_name\<close> of the project its \<^verbatim>\<open>project_id\<close> resolves to.
\<close>

theorem enriched_record_fields:
  assumes "active_instances hv ins pr = (lg, Inr (addrs, ins'))" "a \<in> set addrs"
  shows "\<exists>h p. hyp_of (hyp_short_of hv) (ins ! a) = Some h \<and>
           project_by_id_of pr (i_project_id (ins ! a)) = Some p \<and>
           i_availability_zone (ins' ! a) = h_availability_zone h \<and>
           i_project_display_name (ins' ! a) = Some (p_display_name p)"
proof -
  from active_instances_Inr_facts(6) [OF assms]
  obtain h p where "hyp_of (hyp_short_of hv) (ins ! a) = Some h"
    "project_by_id_of pr (i_project_id (ins ! a)) = Some p" "ins' ! a = enriched h p (ins ! a)"
    by blast
  then show ?thesis by simp
qed

theorem enriched_record_fields_witness:
  "\<exists>h p. hyp_of (hyp_short_of [ex_H1, ex_H2]) ([ex_I1, ex_I2, ex_I4, ex_I5] ! 3) = Some h \<and>
      project_by_id_of [ex_P1] (i_project_id ([ex_I1, ex_I2, ex_I4, ex_I5] ! 3)) = Some p \<and>
      i_availability_zone
        ([ex_I1, ex_I2, ex_I4,
          ex_I5\<lparr>i_availability_zone := Some ''az2'',
                i_project_display_name := Some ''Team Alpha''\<rparr>] ! 3) = h_availability_zone h \<and>
      i_project_display_name
        ([ex_I1, ex_I2, ex_I4,
          ex_I5\<lparr>i_availability_zone := Some ''az2'',
                i_project_display_name := Some ''Team Alpha''\<rparr>] ! 3) = Some (p_display_name p)"
proof -
  have "(3::nat) \<in> set [3]" by simp
  from enriched_record_fields [OF ex_run this] show ?thesis .
qed

text \<open>
  C9: in a run that returns, no yielded record has an availability zone that is
  \<^verbatim>\<open>None\<close> or empty.
\<close>

theorem output_availability_zone_present:
  assumes "active_instances hv ins pr = (lg, Inr (addrs, ins'))"
    "r \<in> set (output_records (addrs, ins'))"
  shows "\<not> falsy (i_availability_zone r)"
proof -
  obtain a where a: "a \<in> set addrs" "r = ins' ! a"
    using assms(2) by (auto simp: output_records_def)
  from active_instances_Inr_facts(6) [OF assms(1) a(1)]
  obtain h p where h: "hyp_of (hyp_short_of hv) (ins ! a) = Some h"
    "ins' ! a = enriched h p (ins ! a)"
    by blast
  have "h \<in> set hv"
    using h(1) hyp_short_of_in_set by (auto simp: hyp_of_def split: option.splits)
  then have "\<not> falsy (h_availability_zone h)"
    using active_instances_Inr(1) [OF assms(1)] by blast
  then show ?thesis using a(2) h(2) by simp
qed

theorem output_availability_zone_present_witness:
  "\<not> falsy (i_availability_zone
       (ex_I5\<lparr>i_availability_zone := Some ''az2'',
              i_project_display_name := Some ''Team Alpha''\<rparr>))"
proof -
  have "ex_I5\<lparr>i_availability_zone := Some ''az2'', i_project_display_name := Some ''Team Alpha''\<rparr>
      \<in> set (output_records ([3], [ex_I1, ex_I2, ex_I4,
          ex_I5\<lparr>i_availability_zone := Some ''az2'',
                i_project_display_name := Some ''Team Alpha''\<rparr>]))"
    by (simp add: output_records_def)
  from output_availability_zone_present [OF ex_run this] show ?thesis .
qed

text \<open>
  C2, as stated, at one hypervisor, one instance and one project: after the run the
  fetched sequence holds, at the address that is yielded, a record whose availability
  zone and set of fields are not the fetched ones.
\<close>

theorem fetched_instances_unchanged_counterexample:
  "active_instances [ex_H2] [ex_I4] [ex_P1] =
     ([(DEBUG, Checked_hypervisor_AZ), (DEBUG, Checked_instance_hypervisor)],
      Inr ([0], [ex_I4\<lparr>i_availability_zone := Some ''az2'',
                       i_project_display_name := Some ''Team Alpha''\<rparr>])) \<and>
   i_availability_zone ex_I4 = Some ''stale-az'' \<and>
   i_project_display_name ex_I4 = None"
  by (simp add: active_instances_def falsy_def short_name_def Let_def
      ex_hypervisors ex_instances ex_P1_def)

text \<open>
  C2, amended: the function changes the fetched instance objects in place and yields
  those objects. After a run that returns, the fetched sequence has its length and the
  yielded records are its objects at the yielded addresses. The object at every yielded
  address is the fetched one with \<^verbatim>\<open>availability_zone\<close> overwritten by that of the
  hypervisor its reference resolves to and \<^verbatim>\<open>project_display_name\<close> set to the
  \<^verbatim>\<open>display_name\<close> of the project its \<^verbatim>\<open>project_id\<close> resolves to, every other field
  as fetched; the object at every other address is as fetched.
\<close>

theorem fetched_instances_enriched_in_place:
  assumes "active_instances hv ins pr = (lg, Inr (addrs, ins'))"
  shows "length ins' = length ins \<and>
         output_records (addrs, ins') = map (\<lambda>a. ins' ! a) addrs \<and>
         (\<forall>a\<in>set addrs. a < length ins \<and>
            (\<exists>h p. hyp_of (hyp_short_of hv) (ins ! a) = Some h \<and>
               project_by_id_of pr (i_project_id (ins ! a)) = Some p \<and>
               ins' ! a =
                 (ins ! a)\<lparr>i_availability_zone := h_availability_zone h,
                           i_project_display_name := Some (p_display_name p)\<rparr>)) \<and>
         (\<forall>a<length ins. a \<notin> set addrs \<longrightarrow> ins' ! a = ins ! a)"
proof -
  note f = active_instances_Inr_facts [OF assms]
  have "\<forall>a\<in>set addrs. a < length ins \<and>
            (\<exists>h p. hyp_of (hyp_short_of hv) (ins ! a) = Some h \<and>
               project_by_id_of pr (i_project_id (ins ! a)) = Some p \<and>
               ins' ! a =
                 (ins ! a)\<lparr>i_availability_zone := h_availability_zone h,
                           i_project_display_name := Some (p_display_name p)\<rparr>)"
  proof
    fix a assume a: "a \<in> set addrs"
    then have "a < length ins" using f(3) by (simp add: last_retained_def)
    moreover have "\<exists>h p. hyp_of (hyp_short_of hv) (ins ! a) = Some h \<and>
               project_by_id_of pr (i_project_id (ins ! a)) = Some p \<and>
               ins' ! a =
                 (ins ! a)\<lparr>i_availability_zone := h_availability_zone h,
                           i_project_display_name := Some (p_display_name p)\<rparr>"
      using f(6) [OF a] unfolding enriched_def .
    ultimately show "a < length ins \<and>
            (\<exists>h p. hyp_of (hyp_short_of hv) (ins ! a) = Some h \<and>
               project_by_id_of pr (i_project_id (ins ! a)) = Some p \<and>
               ins' ! a =
                 (ins ! a)\<lparr>i_availability_zone := h_availability_zone h,
                           i_project_display_name := Some (p_display_name p)\<rparr>)"
      by (rule conjI)
  qed
  moreover have "output_records (addrs, ins') = map (\<lambda>a. ins' ! a) addrs"
    by (simp add: output_records_def)
  ultimately show ?thesis using f(4,5) by blast
qed

theorem fetched_instances_enriched_in_place_witness:
  "length [ex_I1, ex_I2, ex_I4,
           ex_I5\<lparr>i_availability_zone := Some ''az2'',
                 i_project_display_name := Some ''Team Alpha''\<rparr>] =
   length [ex_I1, ex_I2, ex_I4, ex_I5] \<and>
   hyp_of (hyp_short_of [ex_H1, ex_H2]) ([ex_I1, ex_I2, ex_I4, ex_I5] ! 3) = Some ex_H2 \<and>
   project_by_id_of [ex_P1] (i_project_id ([ex_I1, ex_I2, ex_I4, ex_I5] ! 3)) = Some ex_P1 \<and>
   [ex_I1, ex_I2, ex_I4,
    ex_I5\<lparr>i_availability_zone := Some ''az2'',
          i_project_display_name := Some ''Team Alpha''\<rparr>] ! 3 =
     ([ex_I1, ex_I2, ex_I4, ex_I5] ! 3)\<lparr>i_availability_zone := h_availability_zone ex_H2,
                         i_project_display_name := Some (p_display_name ex_P1)\<rparr> \<and>
   [ex_I1, ex_I2, ex_I4,
    ex_I5\<lparr>i_availability_zone := Some ''az2'',
          i_project_display_name := Some ''Team Alpha''\<rparr>] ! 2 = [ex_I1, ex_I2, ex_I4, ex_I5] ! 2"
proof -
  note t = fetched_instances_enriched_in_place [OF ex_run]
  have 1: "(3::nat) \<in> set [3]" by simp
  have 2: "(2::nat) < length [ex_I1, ex_I2, ex_I4, ex_I5]" "(2::nat) \<notin> set [3]" by simp_all
  have h: "hyp_of (hyp_short_of [ex_H1, ex_H2]) ([ex_I1, ex_I2, ex_I4, ex_I5] ! 3) = Some ex_H2"
    by (simp add: hyp_of_def hyp_short_of_def short_name_def Let_def ex_hypervisors ex_I5_def)
  have p: "project_by_id_of [ex_P1] (i_project_id ([ex_I1, ex_I2, ex_I4, ex_I5] ! 3)) = Some ex_P1"
    by (simp add: project_by_id_of_def ex_I5_def ex_P1_def)
  from t have "length [ex_I1, ex_I2, ex_I4,
           ex_I5\<lparr>i_availability_zone := Some ''az2'',
                 i_project_display_name := Some ''Team Alpha''\<rparr>] =
      length [ex_I1, ex_I2, ex_I4, ex_I5]" by blast
  moreover from t 1 obtain h' p' where
    "hyp_of (hyp_short_of [ex_H1, ex_H2]) ([ex_I1, ex_I2, ex_I4, ex_I5] ! 3) = Some h'"
    "project_by_id_of [ex_P1] (i_project_id ([ex_I1, ex_I2, ex_I4, ex_I5] ! 3)) = Some p'"
    "[ex_I1, ex_I2, ex_I4,
      ex_I5\<lparr>i_availability_zone := Some ''az2'',
            i_project_display_name := Some ''Team Alpha''\<rparr>] ! 3 =
     ([ex_I1, ex_I2, ex_I4, ex_I5] ! 3)\<lparr>i_availability_zone := h_availability_zone h',
                         i_project_display_name := Some (p_display_name p')\<rparr>"
    by blast
  then have "[ex_I1, ex_I2, ex_I4,
      ex_I5\<lparr>i_availability_zone := Some ''az2'',
            i_project_display_name := Some ''Team Alpha''\<rparr>] ! 3 =
     ([ex_I1, ex_I2, ex_I4, ex_I5] ! 3)\<lparr>i_availability_zone := h_availability_zone ex_H2,
                         i_project_display_name := Some (p_display_name ex_P1)\<rparr>"
    using h p by simp
  moreover from t 2 have "[ex_I1, ex_I2, ex_I4,
    ex_I5\<lparr>i_availability_zone := Some ''az2'',
          i_project_display_name := Some ''Team Alpha''\<rparr>] ! 2 = [ex_I1, ex_I2, ex_I4, ex_I5] ! 2"
    by blast
  ultimately show ?thesis using h p by blast
qed

text \<open>
  C10: in a run that returns, the yielded records have pairwise different ids. The
  yielded addresses are those of the stored instances that no later stored instance
  shares its id with, so of several stored records with one id the last is yielded.
  The log is the one of \<^const>\<open>run_log\<close>, to which a stored instance contributes
  nothing, overwritten or not.
\<close>

theorem one_record_per_id:
  assumes "active_instances hv ins pr = (lg, Inr (addrs, ins'))"
  shows "distinct (map i_id (output_records (addrs, ins'))) \<and>
         (\<forall>a. a \<in> set addrs \<longleftrightarrow> last_retained (hyp_short_of hv) (project_by_id_of pr) ins a) \<and>
         lg = run_log hv ins pr \<and>
         (\<forall>i\<in>set ins. retained (hyp_short_of hv) (project_by_id_of pr) i \<longrightarrow>
            warnings_of (project_by_id_of pr) i = [])"
proof -
  note f = active_instances_Inr_facts [OF assms]
  have "i_id (ins' ! a) = i_id (ins ! a)" if "a \<in> set addrs" for a
    using f(6) [OF that] by auto
  then have "map i_id (output_records (addrs, ins')) = map (\<lambda>a. i_id (ins ! a)) addrs"
    by (simp add: output_records_def)
  then have "distinct (map i_id (output_records (addrs, ins')))"
    using f(2) by (simp only:)
  moreover have "\<forall>i\<in>set ins. retained (hyp_short_of hv) (project_by_id_of pr) i \<longrightarrow>
            warnings_of (project_by_id_of pr) i = []"
    by (auto simp: retained_def hyp_of_def warnings_of_def)
  ultimately show ?thesis using f(1,3) by blast
qed

theorem one_record_per_id_witness:
  "distinct (map i_id (output_records ([3], [ex_I1, ex_I2, ex_I4,
      ex_I5\<lparr>i_availability_zone := Some ''az2'',
            i_project_display_name := Some ''Team Alpha''\<rparr>]))) \<and>
   i_id ([ex_I1, ex_I2, ex_I4, ex_I5] ! 2) = i_id ([ex_I1, ex_I2, ex_I4, ex_I5] ! 3) \<and>
   retained (hyp_short_of [ex_H1, ex_H2]) (project_by_id_of [ex_P1]) ([ex_I1, ex_I2, ex_I4, ex_I5] ! 2) \<and>
   2 \<notin> set [3::nat] \<and>
   [(DEBUG, Checked_hypervisor_AZ), (WARNING, Duplicate_short_names ''a'' ''H1'' ''H2''),
    (WARNING, Instance_no_hypervisor ''I1''), (WARNING, Invalid_project_id ''I2'' ''UNKNOWN''),
    (DEBUG, Checked_instance_hypervisor)] =
     run_log [ex_H1, ex_H2] [ex_I1, ex_I2, ex_I4, ex_I5] [ex_P1]"
proof -
  note t = one_record_per_id [OF ex_run]
  have "i_id ([ex_I1, ex_I2, ex_I4, ex_I5] ! 2) = i_id ([ex_I1, ex_I2, ex_I4, ex_I5] ! 3)"
    by (simp add: ex_instances)
  moreover have "retained (hyp_short_of [ex_H1, ex_H2]) (project_by_id_of [ex_P1])
      ([ex_I1, ex_I2, ex_I4, ex_I5] ! 2)"
    by (simp add: retained_def hyp_of_def hyp_short_of_def project_by_id_of_def short_name_def
        Let_def ex_hypervisors ex_instances ex_P1_def)
  moreover have "2 \<notin> set [3::nat]" by simp
  ultimately show ?thesis using t by blast
qed

text \<open>
  C5: when nothing fatal was fetched (every hypervisor has an availability zone, every
  hypervisor reference that is not \<^verbatim>\<open>None\<close> resolves), the run returns, however many
  instances have no hypervisor reference. No address of such an instance is yielded, no
  yielded record lacks the reference, and for every id the log holds as many warnings
  \<open>Instance_no_hypervisor\<close> with that id as there are fetched instances with that id and
  no reference: one warning for each.
\<close>

theorem no_hypervisor_instance_dropped:
  fixes ins :: "'z inst_scheme list"
  assumes "\<forall>h\<in>set hv. \<not> falsy (h_availability_zone h)"
    and "\<forall>i\<in>set ins. \<not> unresolved (hyp_short_of hv) i"
  shows "\<exists>lg addrs ins'. active_instances hv ins pr = (lg, Inr (addrs, ins')) \<and>
      (\<forall>a<length ins. i_hypervisor (ins ! a) = None \<longrightarrow> a \<notin> set addrs) \<and>
      (\<forall>r\<in>set (output_records (addrs, ins')). i_hypervisor r \<noteq> None) \<and>
      (\<forall>x. length (filter (\<lambda>e. e = (WARNING, Instance_no_hypervisor x)) lg) =
           length (filter (\<lambda>i. i_hypervisor i = None \<and> i_id i = x) ins))"
proof -
  from active_instances_returns [OF assms, of pr]
  obtain addrs ins' where run: "active_instances hv ins pr = (run_log hv ins pr, Inr (addrs, ins'))"
    by blast
  note f = active_instances_Inr_facts [OF run]
  have 1: "\<forall>a<length ins. i_hypervisor (ins ! a) = None \<longrightarrow> a \<notin> set addrs"
    using f(3) by (auto simp: last_retained_def retained_def hyp_of_def)
  have 2: "\<forall>r\<in>set (output_records (addrs, ins')). i_hypervisor r \<noteq> None"
  proof
    fix r assume "r \<in> set (output_records (addrs, ins'))"
    from output_record_origin [OF run this]
    show "i_hypervisor r \<noteq> None" by (auto simp: hyp_of_def split: option.splits)
  qed
  show ?thesis
    using run 1 2 run_log_count_no_hypervisor by blast
qed

theorem no_hypervisor_instance_dropped_witness:
  "active_instances [ex_H1, ex_H2] [ex_I1, ex_I2, ex_I4, ex_I5] [ex_P1] =
     ([(DEBUG, Checked_hypervisor_AZ), (WARNING, Duplicate_short_names ''a'' ''H1'' ''H2''),
       (WARNING, Instance_no_hypervisor ''I1''), (WARNING, Invalid_project_id ''I2'' ''UNKNOWN''),
       (DEBUG, Checked_instance_hypervisor)],
      Inr ([3], [ex_I1, ex_I2, ex_I4,
                 ex_I5\<lparr>i_availability_zone := Some ''az2'',
                       i_project_display_name := Some ''Team Alpha''\<rparr>])) \<and>
   i_hypervisor ([ex_I1, ex_I2, ex_I4, ex_I5] ! 0) = None \<and>
   0 \<notin> set [3::nat] \<and>
   length (filter (\<lambda>e. e = (WARNING, Instance_no_hypervisor ''I1''))
     [(DEBUG, Checked_hypervisor_AZ), (WARNING, Duplicate_short_names ''a'' ''H1'' ''H2''),
       (WARNING, Instance_no_hypervisor ''I1''), (WARNING, Invalid_project_id ''I2'' ''UNKNOWN''),
       (DEBUG, Checked_instance_hypervisor)]) =
   length (filter (\<lambda>i. i_hypervisor i = None \<and> i_id i = ''I1'') [ex_I1, ex_I2, ex_I4, ex_I5])"
proof -
  have 1: "\<forall>h\<in>set [ex_H1, ex_H2]. \<not> falsy (h_availability_zone h)"
    by (simp add: ex_hypervisors falsy_def)
  have 2: "\<forall>i\<in>set [ex_I1, ex_I2, ex_I4, ex_I5]. \<not> unresolved (hyp_short_of [ex_H1, ex_H2]) i"
    by (simp add: unresolved_def hyp_of_def hyp_short_of_def ex_hypervisors ex_instances
        short_name_def Let_def)
  from no_hypervisor_instance_dropped [OF 1 2, of "[ex_P1]"]
  obtain lg addrs ins' where
    r: "active_instances [ex_H1, ex_H2] [ex_I1, ex_I2, ex_I4, ex_I5] [ex_P1] = (lg, Inr (addrs, ins'))"
    and a: "\<forall>a<length [ex_I1, ex_I2, ex_I4, ex_I5].
       i_hypervisor ([ex_I1, ex_I2, ex_I4, ex_I5] ! a) = None \<longrightarrow> a \<notin> set addrs"
    and c: "\<forall>x. length (filter (\<lambda>e. e = (WARNING, Instance_no_hypervisor x)) lg) =
           length (filter (\<lambda>i. i_hypervisor i = None \<and> i_id i = x) [ex_I1, ex_I2, ex_I4, ex_I5])"
    by blast
  have lg: "lg = [(DEBUG, Checked_hypervisor_AZ), (WARNING, Duplicate_short_names ''a'' ''H1'' ''H2''),
       (WARNING, Instance_no_hypervisor ''I1''), (WARNING, Invalid_project_id ''I2'' ''UNKNOWN''),
       (DEBUG, Checked_instance_hypervisor)]" and addrs: "addrs = [3]"
    using r ex_run by simp_all
  have n: "i_hypervisor ([ex_I1, ex_I2, ex_I4, ex_I5] ! 0) = None" by (simp add: ex_I1_def)
  have "0 \<notin> set [3::nat]" using a [rule_format, of 0] n addrs by simp
  then show ?thesis
    using r [unfolded lg addrs] ex_run n c [rule_format, of "''I1''", unfolded lg] by simp
qed

text \<open>
  C6: when nothing fatal was fetched, the run returns, however many instances have a
  \<^verbatim>\<open>project_id\<close> that is not a key of the project dictionary. The address of an instance
  whose hypervisor reference resolves and whose \<^verbatim>\<open>project_id\<close> is no key is not
  yielded, the log holds the warning with its id and its \<^verbatim>\<open>project_id\<close>, and the
  \<^verbatim>\<open>project_id\<close> of every yielded record is a key.
\<close>

theorem invalid_project_instance_dropped:
  fixes ins :: "'z inst_scheme list"
  assumes "\<forall>h\<in>set hv. \<not> falsy (h_availability_zone h)"
    and "\<forall>i\<in>set ins. \<not> unresolved (hyp_short_of hv) i"
  shows "\<exists>lg addrs ins'. active_instances hv ins pr = (lg, Inr (addrs, ins')) \<and>
      (\<forall>a<length ins. hyp_of (hyp_short_of hv) (ins ! a) \<noteq> None \<and>
           project_by_id_of pr (i_project_id (ins ! a)) = None \<longrightarrow>
         a \<notin> set addrs \<and>
         (WARNING, Invalid_project_id (i_id (ins ! a)) (i_project_id (ins ! a))) \<in> set lg) \<and>
      (\<forall>r\<in>set (output_records (addrs, ins')). project_by_id_of pr (i_project_id r) \<noteq> None)"
proof -
  from active_instances_returns [OF assms, of pr]
  obtain addrs ins' where run: "active_instances hv ins pr = (run_log hv ins pr, Inr (addrs, ins'))"
    by blast
  note f = active_instances_Inr_facts [OF run]
  have 1: "a \<notin> set addrs \<and>
         (WARNING, Invalid_project_id (i_id (ins ! a)) (i_project_id (ins ! a))) \<in> set (run_log hv ins pr)"
    if a: "a < length ins" "hyp_of (hyp_short_of hv) (ins ! a) \<noteq> None"
      "project_by_id_of pr (i_project_id (ins ! a)) = None" for a
  proof
    show "a \<notin> set addrs" using f(3) a(3) by (simp add: last_retained_def retained_def)
    have "i_hypervisor (ins ! a) \<noteq> None"
      using a(2) by (auto simp: hyp_of_def split: option.splits)
    then have "warnings_of (project_by_id_of pr) (ins ! a) =
        [(WARNING, Invalid_project_id (i_id (ins ! a)) (i_project_id (ins ! a)))]"
      using a(3) by (simp add: warnings_of_def)
    moreover have "ins ! a \<in> set ins" using a(1) by simp
    ultimately have "(WARNING, Invalid_project_id (i_id (ins ! a)) (i_project_id (ins ! a)))
        \<in> set (concat (map (warnings_of (project_by_id_of pr)) ins))"
      by (simp only: set_concat set_map) force
    then show "(WARNING, Invalid_project_id (i_id (ins ! a)) (i_project_id (ins ! a)))
        \<in> set (run_log hv ins pr)"
      by (simp add: run_log_def)
  qed
  have 2: "\<forall>r\<in>set (output_records (addrs, ins')). project_by_id_of pr (i_project_id r) \<noteq> None"
  proof
    fix r assume "r \<in> set (output_records (addrs, ins'))"
    from output_record_origin [OF run this]
    show "project_by_id_of pr (i_project_id r) \<noteq> None" by auto
  qed
  show ?thesis
    using run 1 2 by blast
qed

theorem invalid_project_instance_dropped_witness:
  "active_instances [ex_H1, ex_H2] [ex_I1, ex_I2, ex_I4, ex_I5] [ex_P1] =
     ([(DEBUG, Checked_hypervisor_AZ), (WARNING, Duplicate_short_names ''a'' ''H1'' ''H2''),
       (WARNING, Instance_no_hypervisor ''I1''), (WARNING, Invalid_project_id ''I2'' ''UNKNOWN''),
       (DEBUG, Checked_instance_hypervisor)],
      Inr ([3], [ex_I1, ex_I2, ex_I4,
                 ex_I5\<lparr>i_availability_zone := Some ''az2'',
                       i_project_display_name := Some ''Team Alpha''\<rparr>])) \<and>
   hyp_of (hyp_short_of [ex_H1, ex_H2]) ([ex_I1, ex_I2, ex_I4, ex_I5] ! 1) \<noteq> None \<and>
   project_by_id_of [ex_P1] (i_project_id ([ex_I1, ex_I2, ex_I4, ex_I5] ! 1)) = None \<and>
   1 \<notin> set [3::nat] \<and>
   (WARNING, Invalid_project_id (i_id ([ex_I1, ex_I2, ex_I4, ex_I5] ! 1))
      (i_project_id ([ex_I1, ex_I2, ex_I4, ex_I5] ! 1)))
     \<in> set [(DEBUG, Checked_hypervisor_AZ), (WARNING, Duplicate_short_names ''a'' ''H1'' ''H2''),
       (WARNING, Instance_no_hypervisor ''I1''), (WARNING, Invalid_project_id ''I2'' ''UNKNOWN''),
       (DEBUG, Checked_instance_hypervisor)]"
proof -
  have 1: "\<forall>h\<in>set [ex_H1, ex_H2]. \<not> falsy (h_availability_zone h)"
    by (simp add: ex_hypervisors falsy_def)
  have 2: "\<forall>i\<in>set [ex_I1, ex_I2, ex_I4, ex_I5]. \<not> unresolved (hyp_short_of [ex_H1, ex_H2]) i"
    by (simp add: unresolved_def hyp_of_def hyp_short_of_def ex_hypervisors ex_instances
        short_name_def Let_def)
  from invalid_project_instance_dropped [OF 1 2, of "[ex_P1]"]
  obtain lg addrs ins' where
    r: "active_instances [ex_H1, ex_H2] [ex_I1, ex_I2, ex_I4, ex_I5] [ex_P1] = (lg, Inr (addrs, ins'))"
    and a: "\<forall>a<length [ex_I1, ex_I2, ex_I4, ex_I5].
       hyp_of (hyp_short_of [ex_H1, ex_H2]) ([ex_I1, ex_I2, ex_I4, ex_I5] ! a) \<noteq> None \<and>
       project_by_id_of [ex_P1] (i_project_id ([ex_I1, ex_I2, ex_I4, ex_I5] ! a)) = None \<longrightarrow>
       a \<notin> set addrs \<and>
       (WARNING, Invalid_project_id (i_id ([ex_I1, ex_I2, ex_I4, ex_I5] ! a))
          (i_project_id ([ex_I1, ex_I2, ex_I4, ex_I5] ! a))) \<in> set lg"
    by blast
  have lg: "lg = [(DEBUG, Checked_hypervisor_AZ), (WARNING, Duplicate_short_names ''a'' ''H1'' ''H2''),
       (WARNING, Instance_no_hypervisor ''I1''), (WARNING, Invalid_project_id ''I2'' ''UNKNOWN''),
       (DEBUG, Checked_instance_hypervisor)]" and addrs: "addrs = [3]"
    using r ex_run by simp_all
  have n: "hyp_of (hyp_short_of [ex_H1, ex_H2]) ([ex_I1, ex_I2, ex_I4, ex_I5] ! 1) \<noteq> None"
    "project_by_id_of [ex_P1] (i_project_id ([ex_I1, ex_I2, ex_I4, ex_I5] ! 1)) = None"
    by (simp_all add: hyp_of_def hyp_short_of_def project_by_id_of_def ex_hypervisors ex_I2_def
        ex_P1_def short_name_def Let_def)
  have l: "(1::nat) < length [ex_I1, ex_I2, ex_I4, ex_I5]" by simp
  from a [rule_format, OF l] n
  have "1 \<notin> set addrs \<and>
       (WARNING, Invalid_project_id (i_id ([ex_I1, ex_I2, ex_I4, ex_I5] ! 1))
          (i_project_id ([ex_I1, ex_I2, ex_I4, ex_I5] ! 1))) \<in> set lg"
    by blast
  then show ?thesis
    using ex_run n unfolding lg addrs by blast
qed

text \<open>
  C8: a run leaves the hypervisors and the projects as they were and the instances
  changed in place. A second run over these three returns what the first returned: the
  same log, the same addresses in the same order and the instances as the first run
  left them, hence the same yielded records. (A second run over the instances as they
  were fetched returns the same as the first: the function is deterministic.)
\<close>

theorem rerun_same_result:
  fixes ins :: "'z inst_scheme list"
  assumes run: "active_instances hv ins pr = (lg, Inr (addrs, ins'))"
  shows "active_instances hv ins' pr = (lg, Inr (addrs, ins'))"
proof -
  note ok = active_instances_Inr [OF run]
  note f = active_instances_Inr_facts [OF run]
  have keys: "same_keys (ins' ! a) (ins ! a)" if "a < length ins" for a
  proof (cases "a \<in> set addrs")
    case True
    then show ?thesis using f(6) [OF True] by auto
  next
    case False
    then show ?thesis using f(5) [OF that] by simp
  qed
  have ok': "\<forall>i\<in>set ins'. \<not> unresolved (hyp_short_of hv) i"
  proof
    fix i assume "i \<in> set ins'"
    then obtain a where a: "a < length ins" "i = ins' ! a"
      using f(4) by (auto simp: in_set_conv_nth)
    have "ins ! a \<in> set ins" using a(1) by simp
    then have "\<not> unresolved (hyp_short_of hv) (ins ! a)" using ok(2) by blast
    then show "\<not> unresolved (hyp_short_of hv) i"
      using keys [OF a(1)] a(2) by (simp add: unresolved_def hyp_of_def same_keys_def)
  qed
  from active_instances_returns [OF ok(1) ok', of pr]
  obtain addrs2 ins'' where run2: "active_instances hv ins' pr = (run_log hv ins' pr, Inr (addrs2, ins''))"
    by blast
  note f2 = active_instances_Inr_facts [OF run2]
  have "map (warnings_of (project_by_id_of pr)) ins' = map (warnings_of (project_by_id_of pr)) ins"
    using f(4) keys same_keys_warnings_of by (auto simp: list_eq_iff_nth_eq)
  then have lg: "run_log hv ins' pr = lg" using f(1) by (simp add: run_log_def)
  have "list_all2 (\<lambda>x y. fst x = fst y \<and> same_keys (snd x) (snd y)) (enumerate 0 ins') (enumerate 0 ins)"
    using f(4) keys by (simp add: list_all2_conv_all_nth nth_enumerate_eq)
  then have "join_instances (hyp_short_of hv) (project_by_id_of pr) (enumerate 0 ins') [] [] =
      join_instances (hyp_short_of hv) (project_by_id_of pr) (enumerate 0 ins) [] []"
    by (rule join_instances_cong)
  then have addrs: "addrs2 = addrs"
    using active_instances_addrs [OF run] active_instances_addrs [OF run2] by auto
  have "ins'' = ins'"
  proof (rule nth_equalityI)
    show "length ins'' = length ins'" using f2(4) .
  next
    fix a assume "a < length ins''"
    then have a: "a < length ins" "a < length ins'" using f2(4) f(4) by simp_all
    show "ins'' ! a = ins' ! a"
    proof (cases "a \<in> set addrs")
      case True
      from f(6) [OF True] obtain h p where 1: "hyp_of (hyp_short_of hv) (ins ! a) = Some h"
        "project_by_id_of pr (i_project_id (ins ! a)) = Some p" "ins' ! a = enriched h p (ins ! a)"
        by blast
      from f2(6) [of a] True addrs obtain h2 p2 where 2: "hyp_of (hyp_short_of hv) (ins' ! a) = Some h2"
        "project_by_id_of pr (i_project_id (ins' ! a)) = Some p2" "ins'' ! a = enriched h2 p2 (ins' ! a)"
        by blast
      have "h2 = h" using 1(1) 2(1) same_keys_hyp_of [OF keys [OF a(1)], of "hyp_short_of hv"] by simp
      moreover have "p2 = p" using 1(2) 2(2) keys [OF a(1)] by (simp add: same_keys_def)
      ultimately show ?thesis using 1(3) 2(3) by simp
    next
      case False
      then show ?thesis using f2(5) [OF a(2)] addrs by simp
    qed
  qed
  then show ?thesis using run2 lg addrs by simp
qed

theorem rerun_same_result_witness:
  "active_instances [ex_H1, ex_H2]
     [ex_I1, ex_I2, ex_I4,
      ex_I5\<lparr>i_availability_zone := Some ''az2'', i_project_display_name := Some ''Team Alpha''\<rparr>]
     [ex_P1] =
     ([(DEBUG, Checked_hypervisor_AZ), (WARNING, Duplicate_short_names ''a'' ''H1'' ''H2''),
       (WARNING, Instance_no_hypervisor ''I1''), (WARNING, Invalid_project_id ''I2'' ''UNKNOWN''),
       (DEBUG, Checked_instance_hypervisor)],
      Inr ([3], [ex_I1, ex_I2, ex_I4,
                 ex_I5\<lparr>i_availability_zone := Some ''az2'',
                       i_project_display_name := Some ''Team Alpha''\<rparr>]))"
  using rerun_same_result [OF ex_run] .

end
